theory Spec2Isabelle
  imports Complex_Main
begin

section \<open>Data model (backend/models.py)\<close>

text \<open>
  The four tables of \<^verbatim>\<open>models.py\<close>. Primary keys and foreign keys are Python
  integers; text columns are strings. The \<^verbatim>\<open>created_at\<close> timestamps, the unused
  \<^verbatim>\<open>registration\<close>, \<^verbatim>\<open>notes\<close> and \<^verbatim>\<open>available_slots\<close> columns are never read
  by the functions modelled here and are left out. The status column holds one of the
  four labels named in the column's comment.
\<close>

datatype booking_status = Pending | Confirmed | Completed | Cancelled

record user =
  u_id :: int
  u_name :: string
  u_phone :: string
  u_email :: string

record vehicle =
  v_id :: int
  v_user_id :: int
  v_make :: string
  v_model :: string
  v_year :: int

record booking =
  b_id :: int
  b_user_id :: int
  b_vehicle_id :: int
  b_service_center_id :: int
  b_date :: string
  b_time :: string
  b_service_type :: string
  b_status :: booking_status

record service_center =
  c_id :: int
  c_name :: string
  c_address :: string
  c_phone :: string
  c_city :: string

text \<open>
  The store: one list of rows per table, in insertion order. A query without
  \<^verbatim>\<open>ORDER BY\<close> returns rows in this order, so \<^verbatim>\<open>.first()\<close> is \<^const>\<open>find\<close> and
  \<^verbatim>\<open>.count()\<close> is the length of the filtered list.
\<close>

record database =
  users :: "user list"
  vehicles :: "vehicle list"
  bookings :: "booking list"
  service_centers :: "service_center list"

text \<open>Exceptions that the modelled code can raise.\<close>

datatype py_error = ValueError | OverflowError | IntegrityError | ZeroDivisionError
  | AttributeError | HTTP404

section \<open>Calendar dates (datetime.strptime, timedelta, strftime)\<close>

text \<open>
  \<^verbatim>\<open>find_preferred_slot\<close> computes later days with
  \<^verbatim>\<open>(datetime.strptime(d, "%Y-%m-%d") + timedelta(days=i)).strftime("%Y-%m-%d")\<close>.
  \<^verbatim>\<open>strptime\<close> matches the text against
  \<^verbatim>\<open>(\d\d\d\d)-(1[0-2]|0[1-9]|[1-9])-(3[0-1]|[1-2]\d|0[1-9]|[1-9]| [1-9])\<close>,
  refuses text left over after the match, and refuses year 0 and a day beyond the
  month's length (all \<^verbatim>\<open>ValueError\<close>). Adding days beyond 9999-12-31 raises
  \<^verbatim>\<open>OverflowError\<close>. \<^verbatim>\<open>strftime\<close> hands \<^verbatim>\<open>%Y-%m-%d\<close> to the C library: month and
  day are written with two digits, and the year as glibc writes \<^verbatim>\<open>%Y\<close>, without
  padding, so a year before 1000 comes out with fewer than four digits
  (0099-06-10 plus one day is written 99-06-11).
\<close>

definition is_digit :: "char \<Rightarrow> bool" where
  "is_digit c = (c \<in> set ''0123456789'')"

definition is_digit19 :: "char \<Rightarrow> bool" where
  "is_digit19 c = (c \<in> set ''123456789'')"

definition digit_val :: "char \<Rightarrow> nat" where
  "digit_val c = of_char c - 48"

definition digit_char :: "nat \<Rightarrow> char" where
  "digit_char n = ''0123456789'' ! n"

fun str_nat :: "nat \<Rightarrow> string" where
  "str_nat n = (if n < 10 then [digit_char n] else str_nat (n div 10) @ [digit_char (n mod 10)])"

declare str_nat.simps [simp del]

definition zero_pad :: "nat \<Rightarrow> nat \<Rightarrow> string" where
  "zero_pad w n = replicate (w - length (str_nat n)) (CHR ''0'') @ str_nat n"

definition is_leap :: "nat \<Rightarrow> bool" where
  "is_leap y = (y mod 4 = 0 \<and> (y mod 100 \<noteq> 0 \<or> y mod 400 = 0))"

definition days_in_month :: "nat \<Rightarrow> nat \<Rightarrow> nat" where
  "days_in_month y m =
     (if m = 2 then (if is_leap y then 29 else 28)
      else if m = 4 \<or> m = 6 \<or> m = 9 \<or> m = 11 then 30 else 31)"

text \<open>The month group \<^verbatim>\<open>1[0-2]|0[1-9]|[1-9]\<close>: the value and the text after it.\<close>

fun parse_month :: "string \<Rightarrow> (nat \<times> string) option" where
  "parse_month (a # b # rest) =
     (if a = CHR ''1'' \<and> b \<in> set ''012'' then Some (10 + digit_val b, rest)
      else if a = CHR ''0'' \<and> is_digit19 b then Some (digit_val b, rest)
      else if is_digit19 a then Some (digit_val a, b # rest)
      else None)"
| "parse_month [a] = (if is_digit19 a then Some (digit_val a, []) else None)"
| "parse_month [] = None"

text \<open>The day group \<^verbatim>\<open>3[0-1]|[1-2]\d|0[1-9]|[1-9]| [1-9]\<close>, likewise.\<close>

fun parse_day :: "string \<Rightarrow> (nat \<times> string) option" where
  "parse_day (a # b # rest) =
     (if a = CHR ''3'' \<and> b \<in> set ''01'' then Some (30 + digit_val b, rest)
      else if a \<in> set ''12'' \<and> is_digit b then Some (10 * digit_val a + digit_val b, rest)
      else if a = CHR ''0'' \<and> is_digit19 b then Some (digit_val b, rest)
      else if is_digit19 a then Some (digit_val a, b # rest)
      else if a = CHR '' '' \<and> is_digit19 b then Some (digit_val b, rest)
      else None)"
| "parse_day [a] = (if is_digit19 a then Some (digit_val a, []) else None)"
| "parse_day [] = None"

definition valid_ymd :: "nat \<times> nat \<times> nat \<Rightarrow> bool" where
  "valid_ymd = (\<lambda>(y, m, d). 1 \<le> y \<and> y \<le> 9999 \<and> 1 \<le> m \<and> m \<le> 12
                  \<and> 1 \<le> d \<and> d \<le> days_in_month y m)"

fun strptime :: "string \<Rightarrow> py_error + (nat \<times> nat \<times> nat)" where
  "strptime (y1 # y2 # y3 # y4 # sep # rest) =
     (if is_digit y1 \<and> is_digit y2 \<and> is_digit y3 \<and> is_digit y4 \<and> sep = CHR ''-'' then
        (case parse_month rest of
           None \<Rightarrow> Inl ValueError
         | Some (m, rest1) \<Rightarrow>
            (case rest1 of
               [] \<Rightarrow> Inl ValueError
             | sep1 # rest2 \<Rightarrow>
                if sep1 \<noteq> CHR ''-'' then Inl ValueError
                else (case parse_day rest2 of
                        None \<Rightarrow> Inl ValueError
                      | Some (d, rest3) \<Rightarrow>
                          let y = 1000 * digit_val y1 + 100 * digit_val y2
                                    + 10 * digit_val y3 + digit_val y4
                          in if rest3 = [] \<and> valid_ymd (y, m, d) then Inr (y, m, d)
                             else Inl ValueError)))
      else Inl ValueError)"
| "strptime _ = Inl ValueError"

text \<open>One day later; \<^verbatim>\<open>OverflowError\<close> past year 9999.\<close>

definition next_day :: "nat \<times> nat \<times> nat \<Rightarrow> py_error + (nat \<times> nat \<times> nat)" where
  "next_day = (\<lambda>(y, m, d).
     if d < days_in_month y m then Inr (y, m, d + 1)
     else if m < 12 then Inr (y, m + 1, 1)
     else if y < 9999 then Inr (y + 1, 1, 1)
     else Inl OverflowError)"

fun add_days :: "nat \<times> nat \<times> nat \<Rightarrow> nat \<Rightarrow> py_error + (nat \<times> nat \<times> nat)" where
  "add_days dt 0 = Inr dt"
| "add_days dt (Suc i) = (case next_day dt of Inl e \<Rightarrow> Inl e | Inr dt' \<Rightarrow> add_days dt' i)"

definition strftime :: "nat \<times> nat \<times> nat \<Rightarrow> string" where
  "strftime = (\<lambda>(y, m, d). str_nat y @ ''-'' @ zero_pad 2 m @ ''-'' @ zero_pad 2 d)"

definition shift_date :: "string \<Rightarrow> nat \<Rightarrow> py_error + string" where
  "shift_date date i =
     (case strptime date of
        Inl e \<Rightarrow> Inl e
      | Inr dt \<Rightarrow> (case add_days dt i of Inl e \<Rightarrow> Inl e | Inr dt' \<Rightarrow> Inr (strftime dt')))"

text \<open>
  The day that \<^verbatim>\<open>timedelta\<close> arithmetic reaches is defined in \<^verbatim>\<open>datetime\<close> by day numbers:
  \<^verbatim>\<open>date + timedelta(days=i)\<close> is \<^verbatim>\<open>date.fromordinal(date.toordinal() + i)\<close>, where
  \<^verbatim>\<open>toordinal\<close> counts the days from 0001-01-01 (day 1) with \<^verbatim>\<open>_days_before_year\<close> and
  the table \<^verbatim>\<open>_DAYS_BEFORE_MONTH\<close>. The three functions below are those of the library;
  they are the yardstick for \<^const>\<open>add_days\<close>, which walks the calendar one day at a time.
\<close>

definition days_before_year :: "nat \<Rightarrow> int" where
  "days_before_year year = (let y = int year - 1 in y * 365 + y div 4 - y div 100 + y div 400)"

definition days_before_month :: "nat \<Rightarrow> nat \<Rightarrow> int" where
  "days_before_month year month =
     [0, 31, 59, 90, 120, 151, 181, 212, 243, 273, 304, 334] ! (month - 1)
       + (if 2 < month \<and> is_leap year then 1 else 0)"

definition toordinal :: "nat \<times> nat \<times> nat \<Rightarrow> int" where
  "toordinal = (\<lambda>(y, m, d). days_before_year y + days_before_month y m + int d)"

section \<open>Python floats (binary64)\<close>












section \<open>Scheduler (backend/scheduler.py)\<close>

definition AVAILABLE_SLOTS :: "string list" where
  "AVAILABLE_SLOTS = [''09:00'', ''10:00'', ''11:00'', ''12:00'',
                      ''14:00'', ''15:00'', ''16:00'', ''17:00'']"

definition SLOTS_PER_TIMEFRAME :: int where
  "SLOTS_PER_TIMEFRAME = 5"

text \<open>
  The query both \<^verbatim>\<open>check_slot_availability\<close> and \<^verbatim>\<open>get_slot_occupancy\<close> run:
  bookings of the given date, time and centre whose status is not Cancelled, counted.
\<close>

definition slot_filter :: "string \<Rightarrow> string \<Rightarrow> int \<Rightarrow> booking \<Rightarrow> bool" where
  "slot_filter date time cid b =
     (b_date b = date \<and> b_time b = time \<and> b_service_center_id b = cid
        \<and> b_status b \<noteq> Cancelled)"

definition existing_bookings :: "database \<Rightarrow> string \<Rightarrow> string \<Rightarrow> int \<Rightarrow> int" where
  "existing_bookings db date time cid =
     int (length (filter (slot_filter date time cid) (bookings db)))"

definition check_slot_availability :: "database \<Rightarrow> string \<Rightarrow> string \<Rightarrow> int \<Rightarrow> bool" where
  "check_slot_availability db date time cid =
     (existing_bookings db date time cid < SLOTS_PER_TIMEFRAME)"

text \<open>The occupancy dict, as the list of its items in insertion order.\<close>

definition get_slot_occupancy :: "database \<Rightarrow> string \<Rightarrow> int \<Rightarrow> (string \<times> int) list" where
  "get_slot_occupancy db date cid =
     map (\<lambda>slot. (slot, existing_bookings db date slot cid)) AVAILABLE_SLOTS"

text \<open>\<^verbatim>\<open>occupancy.get(key, default)\<close>.\<close>

definition dict_get :: "('k \<times> 'v) list \<Rightarrow> 'k \<Rightarrow> 'v \<Rightarrow> 'v" where
  "dict_get d k dflt = (case map_of d k of None \<Rightarrow> dflt | Some v \<Rightarrow> v)"

text \<open>
  Step 4 of \<^verbatim>\<open>find_preferred_slot\<close>: for each offset in turn, the date that many days
  after the preferred one, and the first available slot on it.
\<close>

fun search_days :: "database \<Rightarrow> string \<Rightarrow> int \<Rightarrow> nat list \<Rightarrow> py_error + (string \<times> string) option" where
  "search_days db preferred_date cid [] = Inr None"
| "search_days db preferred_date cid (i # rest) =
     (case shift_date preferred_date i of
        Inl e \<Rightarrow> Inl e
      | Inr search_date \<Rightarrow>
          (case find (\<lambda>slot. check_slot_availability db search_date slot cid) AVAILABLE_SLOTS of
             Some slot \<Rightarrow> Inr (Some (search_date, slot))
           | None \<Rightarrow> search_days db preferred_date cid rest))"

definition find_preferred_slot ::
  "database \<Rightarrow> string \<Rightarrow> string \<Rightarrow> int \<Rightarrow> py_error + (string \<times> string)" where
  "find_preferred_slot db preferred_date preferred_time cid =
     (if preferred_time \<in> set AVAILABLE_SLOTS
         \<and> check_slot_availability db preferred_date preferred_time cid
      then Inr (preferred_date, preferred_time)
      else
        let occupancy = get_slot_occupancy db preferred_date cid;
            available_slots_today = sort_key (\<lambda>x. dict_get occupancy x 0) AVAILABLE_SLOTS
        in case find (\<lambda>slot. check_slot_availability db preferred_date slot cid)
                  available_slots_today of
             Some slot \<Rightarrow> Inr (preferred_date, slot)
           | None \<Rightarrow>
              (case shift_date preferred_date 1 of
                 Inl e \<Rightarrow> Inl e
               | Inr next_date \<Rightarrow>
                  (case find (\<lambda>slot. check_slot_availability db next_date slot cid)
                          AVAILABLE_SLOTS of
                     Some slot \<Rightarrow> Inr (next_date, slot)
                   | None \<Rightarrow>
                      (case search_days db preferred_date cid [2, 3, 4, 5, 6] of
                         Inl e \<Rightarrow> Inl e
                       | Inr (Some r) \<Rightarrow> Inr r
                       | Inr None \<Rightarrow> Inr (next_date, AVAILABLE_SLOTS ! 0)))))"

definition find_best_service_center :: "database \<Rightarrow> int" where
  "find_best_service_center db =
     (case service_centers db of [] \<Rightarrow> 1 | center # _ \<Rightarrow> c_id center)"

record booking_details =
  bd_date :: string
  bd_time :: string
  bd_service_center :: string
  bd_address :: string
  bd_phone :: string
  bd_city :: string

definition get_booking_details :: "string \<Rightarrow> string \<Rightarrow> int \<Rightarrow> database \<Rightarrow> booking_details" where
  "get_booking_details booked_date booked_time cid db =
     (case find (\<lambda>c. c_id c = cid) (service_centers db) of
        Some center \<Rightarrow>
          \<lparr>bd_date = booked_date, bd_time = booked_time, bd_service_center = c_name center,
           bd_address = c_address center, bd_phone = c_phone center, bd_city = c_city center\<rparr>
      | None \<Rightarrow>
          \<lparr>bd_date = booked_date, bd_time = booked_time,
           bd_service_center = ''EY Auto Service Center'',
           bd_address = ''Contact for location'', bd_phone = ''+91-XXXX-XXXX'',
           bd_city = ''India''\<rparr>)"





text \<open>\<^verbatim>\<open>str\<close> of an integer, as the f-strings of \<^verbatim>\<open>predict_wait_time\<close> print it.\<close>

definition str_int :: "int \<Rightarrow> string" where
  "str_int i = (if i < 0 then ''-'' @ str_nat (nat (- i)) else str_nat (nat i))"

definition predict_wait_time :: "(string \<times> int) list \<Rightarrow> string \<Rightarrow> string" where
  "predict_wait_time occupancy selected_slot =
     (let booked_count = dict_get occupancy selected_slot 0;
          estimated_minutes = booked_count * 30
      in if estimated_minutes = 0 then ''No wait - You'll be first!''
         else if estimated_minutes \<le> 30 then ''~'' @ str_int estimated_minutes @ '' min wait''
         else if estimated_minutes \<le> 60 then
           ''~'' @ str_int estimated_minutes @ '' min wait (about 1 hour)''
         else
           let hours = estimated_minutes div 60;
               minutes = estimated_minutes mod 60
           in ''~'' @ str_int hours @ ''h '' @ str_int minutes @ ''m wait'')"

section \<open>CRUD operations (backend/crud.py)\<close>

record booking_create =
  user_name :: string
  phone :: string
  email :: string
  vehicle_make :: string
  vehicle_model :: string
  vehicle_year :: int
  preferred_date :: string
  preferred_time :: string
  service_type :: string

text \<open>
  The store assigns an integer primary key to a new row: one more than the largest key
  of the table, 1 for an empty table.
\<close>

definition next_id :: "int list \<Rightarrow> int" where
  "next_id ids = fold max ids 0 + 1"

text \<open>
  What the store refuses, from the column declarations of \<^verbatim>\<open>models.py\<close> under the
  default SQLite engine of \<^verbatim>\<open>database.py\<close>: a second row with the same value in a
  \<^verbatim>\<open>unique\<close> column (\<^verbatim>\<open>IntegrityError\<close>), and an \<^verbatim>\<open>Integer\<close> outside the signed
  64-bit range (\<^verbatim>\<open>OverflowError\<close>). The declared lengths of text columns are not
  enforced by that engine. Each \<^verbatim>\<open>db.commit()\<close> makes its insert durable at once; a
  function that raises leaves the store as the last commit left it.
\<close>

definition fits_integer :: "int \<Rightarrow> bool" where
  "fits_integer i = (- (2 ^ 63) \<le> i \<and> i < 2 ^ 63)"

definition create_or_get_user ::
  "database \<Rightarrow> string \<Rightarrow> string \<Rightarrow> string \<Rightarrow> py_error + (user \<times> database)" where
  "create_or_get_user db name ph em =
     (case find (\<lambda>u. u_phone u = ph) (users db) of
        Some u \<Rightarrow> Inr (u, db)
      | None \<Rightarrow>
          if em \<in> set (map u_email (users db)) then Inl IntegrityError
          else
            let db_user = \<lparr>u_id = next_id (map u_id (users db)), u_name = name,
                           u_phone = ph, u_email = em\<rparr>
            in Inr (db_user, db\<lparr>users := users db @ [db_user]\<rparr>))"

definition create_or_get_vehicle ::
  "database \<Rightarrow> int \<Rightarrow> string \<Rightarrow> string \<Rightarrow> int \<Rightarrow> py_error + (vehicle \<times> database)" where
  "create_or_get_vehicle db uid mk md yr =
     (case find (\<lambda>v. v_user_id v = uid \<and> v_make v = mk \<and> v_model v = md) (vehicles db) of
        Some v \<Rightarrow> Inr (v, db)
      | None \<Rightarrow>
          if \<not> fits_integer yr then Inl OverflowError
          else
            let db_vehicle = \<lparr>v_id = next_id (map v_id (vehicles db)), v_user_id = uid,
                              v_make = mk, v_model = md, v_year = yr\<rparr>
            in Inr (db_vehicle, db\<lparr>vehicles := vehicles db @ [db_vehicle]\<rparr>))"

text \<open>
  \<^verbatim>\<open>create_booking\<close> stores the preferred date and time as given, at centre 1. The
  result pairs what the call returns or raises with the store it leaves behind.
\<close>

definition create_booking :: "database \<Rightarrow> booking_create \<Rightarrow> (py_error + booking) \<times> database" where
  "create_booking db booking =
     (case create_or_get_user db (user_name booking) (phone booking) (email booking) of
        Inl e \<Rightarrow> (Inl e, db)
      | Inr (usr, db1) \<Rightarrow>
          (case create_or_get_vehicle db1 (u_id usr) (vehicle_make booking)
                  (vehicle_model booking) (vehicle_year booking) of
             Inl e \<Rightarrow> (Inl e, db1)
           | Inr (veh, db2) \<Rightarrow>
               let db_booking = \<lparr>b_id = next_id (map b_id (bookings db2)),
                                 b_user_id = u_id usr, b_vehicle_id = v_id veh,
                                 b_service_center_id = 1,
                                 b_date = preferred_date booking,
                                 b_time = preferred_time booking,
                                 b_service_type = service_type booking,
                                 b_status = Confirmed\<rparr>
               in (Inr db_booking, db2\<lparr>bookings := bookings db2 @ [db_booking]\<rparr>)))"

definition get_booking_by_id :: "database \<Rightarrow> int \<Rightarrow> booking option" where
  "get_booking_by_id db booking_id = find (\<lambda>b. b_id b = booking_id) (bookings db)"

text \<open>
  \<^verbatim>\<open>cancel_booking\<close>: the row with the given primary key gets status Cancelled; the
  call returns the updated row, or nothing when there is no such row.
\<close>

definition cancel_booking :: "database \<Rightarrow> int \<Rightarrow> booking option \<times> database" where
  "cancel_booking db booking_id =
     (case find (\<lambda>b. b_id b = booking_id) (bookings db) of
        None \<Rightarrow> (None, db)
      | Some b \<Rightarrow>
          (Some (b\<lparr>b_status := Cancelled\<rparr>),
           db\<lparr>bookings := map (\<lambda>r. if b_id r = booking_id then r\<lparr>b_status := Cancelled\<rparr> else r)
                              (bookings db)\<rparr>))"

definition default_centers :: "(string \<times> string \<times> string \<times> string) list" where
  "default_centers =
     [(''EY Auto Service Center - Mumbai'', ''Andheri East, Mumbai'', ''+91-22-1234-5678'', ''Mumbai''),
      (''EY Auto Service Center - Pune'', ''Koregaon Park, Pune'', ''+91-20-1234-5678'', ''Pune''),
      (''EY Auto Service Center - Bangalore'', ''Whitefield, Bangalore'', ''+91-80-1234-5678'',
       ''Bangalore'')]"

definition initialize_service_centers :: "database \<Rightarrow> database" where
  "initialize_service_centers db =
     (if length (service_centers db) > 0 then db
      else db\<lparr>service_centers :=
                map (\<lambda>(i, (n, a, p, c)). \<lparr>c_id = int i + 1, c_name = n, c_address = a,
                                          c_phone = p, c_city = c\<rparr>)
                    (enumerate 0 default_centers)\<rparr>)"

section \<open>The scheduling endpoint (backend/main.py)\<close>

text \<open>
  The route function catches every exception and raises
  \<^verbatim>\<open>HTTPException(status_code=400)\<close> in its place; the detail text is stood for by the
  exception it is built from. The result pairs what the route function returns or raises
  with the store the request leaves behind. What the client receives for a raised
  \<^verbatim>\<open>HTTPException\<close> is decided after the route function, by the handler that
  \<^verbatim>\<open>main.py\<close> registers with \<^verbatim>\<open>@app.exception_handler(HTTPException)\<close> and by the
  framework that calls it. That handler returns a plain dict where the framework expects a
  response object, so the status line sent to the client need not be the 400 of the
  exception; this step is not part of the model, and no statement below speaks of it.
\<close>

datatype http_exception = HTTPException nat py_error

record appointment =
  booking_id :: int
  confirmation_number :: string
  customer_name :: string
  vehicle_label :: string
  preferred_request :: "string \<times> string"
  assigned_slot :: "string \<times> string"
  slot_changed :: bool
  details :: booking_details
  estimated_wait :: string
  email_confirmation :: string
  sms_notification :: string

text \<open>The format \<^verbatim>\<open>{id:05d}\<close>: at least five characters, padded with zeros after the sign.\<close>

definition format_05d :: "int \<Rightarrow> string" where
  "format_05d i = (if i < 0 then ''-'' @ zero_pad 4 (nat (- i)) else zero_pad 5 (nat i))"

definition schedule_appointment ::
  "database \<Rightarrow> booking_create \<Rightarrow> (http_exception + appointment) \<times> database" where
  "schedule_appointment db booking =
     (let service_center_id = find_best_service_center db
      in (case find_preferred_slot db (preferred_date booking) (preferred_time booking)
                 service_center_id of
            Inl e \<Rightarrow> (Inl (HTTPException 400 e), db)
          | Inr (assigned_date, assigned_time) \<Rightarrow>
             (let occupancy = get_slot_occupancy db assigned_date service_center_id;
                  wait_time = predict_wait_time occupancy assigned_time
              in (case create_or_get_user db (user_name booking) (phone booking)
                         (email booking) of
                    Inl e \<Rightarrow> (Inl (HTTPException 400 e), db)
                  | Inr (usr, db1) \<Rightarrow>
                     (case create_or_get_vehicle db1 (u_id usr) (vehicle_make booking)
                             (vehicle_model booking) (vehicle_year booking) of
                        Inl e \<Rightarrow> (Inl (HTTPException 400 e), db1)
                      | Inr (veh, db2) \<Rightarrow>
                         (let db_booking = \<lparr>b_id = next_id (map b_id (bookings db2)),
                                            b_user_id = u_id usr, b_vehicle_id = v_id veh,
                                            b_service_center_id = service_center_id,
                                            b_date = assigned_date, b_time = assigned_time,
                                            b_service_type = service_type booking,
                                            b_status = Confirmed\<rparr>;
                              db3 = db2\<lparr>bookings := bookings db2 @ [db_booking]\<rparr>;
                              booking_details = get_booking_details assigned_date assigned_time
                                                  service_center_id db3
                          in (Inr \<lparr>booking_id = b_id db_booking,
                                   confirmation_number = ''AP-'' @ format_05d (b_id db_booking),
                                   customer_name = u_name usr,
                                   vehicle_label = v_make veh @ '' '' @ v_model veh,
                                   preferred_request =
                                     (preferred_date booking, preferred_time booking),
                                   assigned_slot = (assigned_date, assigned_time),
                                   slot_changed = ((assigned_date \<noteq> preferred_date booking)
                                                   \<or> (assigned_time \<noteq> preferred_time booking)),
                                   details = booking_details,
                                   estimated_wait = wait_time,
                                   email_confirmation = ''Confirmation sent to '' @ u_email usr,
                                   sms_notification = ''Notification sent to '' @ u_phone usr\<rparr>,
                              db3)))))))"

text \<open>
  \<^verbatim>\<open>send_completion_notification\<close> (\<^verbatim>\<open>POST /notify/send-completion\<close>) is the one other
  route that writes a booking: after the notification is composed it sets the status of
  the row with the given primary key to Completed, whatever the status was, and commits.
  The row's user and vehicle are read through the relationships first; a missing one is
  \<^verbatim>\<open>None\<close>, and reading its name raises \<^verbatim>\<open>AttributeError\<close>. When there is no such row
  the route raises \<^verbatim>\<open>HTTPException(status_code=404)\<close> inside its own \<^verbatim>\<open>try\<close>, which the
  \<^verbatim>\<open>except Exception\<close> clause catches like any other exception (\<open>HTTP404\<close> stands for
  it) and replaces by \<^verbatim>\<open>HTTPException(status_code=400)\<close>. The notification itself is
  kept in memory only and writes nothing to the store. The result is the booking id of
  the response, or the exception raised, with the store left behind.
\<close>

definition send_completion_notification ::
  "database \<Rightarrow> int \<Rightarrow> (http_exception + int) \<times> database" where
  "send_completion_notification db booking_id' =
     (case find (\<lambda>b. b_id b = booking_id') (bookings db) of
        None \<Rightarrow> (Inl (HTTPException 400 HTTP404), db)
      | Some booking \<Rightarrow>
         (case find (\<lambda>u. u_id u = b_user_id booking) (users db) of
            None \<Rightarrow> (Inl (HTTPException 400 AttributeError), db)
          | Some usr \<Rightarrow>
             (case find (\<lambda>v. v_id v = b_vehicle_id booking) (vehicles db) of
                None \<Rightarrow> (Inl (HTTPException 400 AttributeError), db)
              | Some veh \<Rightarrow>
                  (Inr (b_id booking),
                   db\<lparr>bookings := map (\<lambda>r. if b_id r = booking_id'
                                             then r\<lparr>b_status := Completed\<rparr> else r)
                                      (bookings db)\<rparr>))))"

section \<open>Predicates of the specification\<close>

text \<open>Every one of the eight slots of a date is at capacity at a centre.\<close>

definition day_full :: "database \<Rightarrow> string \<Rightarrow> int \<Rightarrow> bool" where
  "day_full db date cid =
     (\<forall>slot\<in>set AVAILABLE_SLOTS. \<not> check_slot_availability db date slot cid)"

text \<open>
  The preferred date and each of the six days after it exist as dates and are full.
\<close>

definition week_full :: "database \<Rightarrow> string \<Rightarrow> int \<Rightarrow> bool" where
  "week_full db date cid =
     (day_full db date cid
      \<and> (\<forall>i\<in>set [1, 2, 3, 4, 5, 6]. case shift_date date i of
                                       Inl e \<Rightarrow> False
                                     | Inr search_date \<Rightarrow> day_full db search_date cid))"

text \<open>The capacity invariant: no triple holds more than five non-cancelled bookings.\<close>

definition capacity_ok :: "database \<Rightarrow> bool" where
  "capacity_ok db =
     (\<forall>date time cid. existing_bookings db date time cid \<le> SLOTS_PER_TIMEFRAME)"

text \<open>
  The operations that write bookings: the scheduling endpoint, \<^verbatim>\<open>create_booking\<close>
  (the \<^verbatim>\<open>POST /bookings\<close> endpoint), \<^verbatim>\<open>cancel_booking\<close> and the completion
  notification (\<^verbatim>\<open>POST /notify/send-completion\<close>). No other route and no other function
  of the backend adds, changes or deletes a booking. \<open>handle\<close> gives the store a request
  leaves behind, whether it succeeds or fails.
\<close>

datatype request = Schedule booking_create | Create booking_create | Cancel int
  | Complete int

fun handle :: "database \<Rightarrow> request \<Rightarrow> database" where
  "handle db (Schedule b) = snd (schedule_appointment db b)"
| "handle db (Create b) = snd (create_booking db b)"
| "handle db (Cancel i) = snd (cancel_booking db i)"
| "handle db (Complete i) = snd (send_completion_notification db i)"

text \<open>
  A run of requests that never takes the exhausted fallback, never uses
  \<^verbatim>\<open>create_booking\<close> and never completes a cancelled booking: every scheduling request
  arrives when its week is not wholly full at the centre that
  \<^verbatim>\<open>find_best_service_center\<close> selects, and every completion notification names a
  booking id under which no Cancelled row is stored.
\<close>

fun within_horizon :: "database \<Rightarrow> request list \<Rightarrow> bool" where
  "within_horizon db [] = True"
| "within_horizon db (Schedule b # rs) =
     (\<not> week_full db (preferred_date b) (find_best_service_center db)
      \<and> within_horizon (handle db (Schedule b)) rs)"
| "within_horizon db (Create b # rs) = False"
| "within_horizon db (Cancel i # rs) = within_horizon (handle db (Cancel i)) rs"
| "within_horizon db (Complete i # rs) =
     (list_all (\<lambda>r. b_id r = i \<longrightarrow> b_status r \<noteq> Cancelled) (bookings db)
      \<and> within_horizon (handle db (Complete i)) rs)"



section \<open>Example stores\<close>

definition confirmed_booking :: "int \<Rightarrow> string \<Rightarrow> string \<Rightarrow> int \<Rightarrow> booking" where
  "confirmed_booking i date time cid =
     \<lparr>b_id = i, b_user_id = 1, b_vehicle_id = 1, b_service_center_id = cid,
      b_date = date, b_time = time, b_service_type = ''General Service'',
      b_status = Confirmed\<rparr>"

definition empty_db :: database where
  "empty_db = \<lparr>users = [], vehicles = [], bookings = [], service_centers = []\<rparr>"

text \<open>A store whose only rows are \<open>n\<close> Confirmed bookings of one slot.\<close>

definition slot_with :: "nat \<Rightarrow> string \<Rightarrow> string \<Rightarrow> int \<Rightarrow> database" where
  "slot_with n date time cid =
     empty_db\<lparr>bookings := map (\<lambda>i. confirmed_booking (int i + 1) date time cid) [0..<n]\<rparr>"

definition sample_occupancy :: "(string \<times> int) list" where
  "sample_occupancy = [(''09:00'', 0), (''10:00'', 1), (''11:00'', 2), (''12:00'', 3)]"

text \<open>Rows numbered 1, 2, ... in insertion order, as the store numbers them.\<close>

definition renumber :: "booking list \<Rightarrow> booking list" where
  "renumber bs = map (\<lambda>(i, b). b\<lparr>b_id := int i + 1\<rparr>) (enumerate 0 bs)"

text \<open>A store with the given number of Confirmed bookings per (date, time), at centre 1.\<close>

definition load_db :: "(string \<times> string \<times> nat) list \<Rightarrow> database" where
  "load_db ls =
     empty_db\<lparr>bookings :=
       renumber (concat (map (\<lambda>(d, t, n). replicate n (confirmed_booking 0 d t 1)) ls))\<rparr>"

text \<open>Every slot of 2025-06-10 through 2025-06-16 holds five bookings (40 of 40 each day).\<close>

definition full_week_days :: "string list" where
  "full_week_days = [''2025-06-10'', ''2025-06-11'', ''2025-06-12'', ''2025-06-13'',
                     ''2025-06-14'', ''2025-06-15'', ''2025-06-16'']"

definition full_week_db :: database where
  "full_week_db =
     load_db (map (\<lambda>(d, t). (d, t, 5)) (List.product full_week_days AVAILABLE_SLOTS))"

text \<open>The store after start-up: three centres, nothing else.\<close>

definition seeded_db :: database where
  "seeded_db = initialize_service_centers empty_db"

definition sample_request :: booking_create where
  "sample_request =
     \<lparr>user_name = ''Asha Rao'', phone = ''9000000001'', email = ''asha@example.com'',
      vehicle_make = ''Tata'', vehicle_model = ''Nexon'', vehicle_year = 2023,
      preferred_date = ''2025-06-10'', preferred_time = ''10:00'',
      service_type = ''General Service''\<rparr>"

text \<open>A request whose vehicle year does not fit an Integer column.\<close>

definition overflow_request :: booking_create where
  "overflow_request = sample_request\<lparr>vehicle_year := 2 ^ 63\<rparr>"

text \<open>A request whose date and time are both malformed.\<close>

definition malformed_request :: booking_create where
  "malformed_request =
     sample_request\<lparr>preferred_date := ''not-a-date'', preferred_time := ''25:99''\<rparr>"

text \<open>Every slot filed under the text "not-a-date" holds five bookings; there are no centres.\<close>

definition malformed_full_db :: database where
  "malformed_full_db = load_db (map (\<lambda>t. (''not-a-date'', t, 5)) AVAILABLE_SLOTS)"

text \<open>
  Two bookings of the same slot, a cancellation of the first, a third booking, and the
  completion of the second.
\<close>

definition sample_run :: "request list" where
  "sample_run = [Schedule sample_request, Schedule sample_request, Cancel 1,
                 Schedule sample_request, Complete 2]"

text \<open>
  Five bookings of one slot, a cancellation of the first, a sixth booking that takes the
  freed place, and a completion notification for the cancelled first.
\<close>

definition revival_run :: "request list" where
  "revival_run = replicate 5 (Schedule sample_request)
                   @ [Cancel 1, Schedule sample_request, Complete 1]"

section \<open>Properties\<close>

subsection \<open>Lists\<close>

lemma length_filter_map_less:
  assumes "x \<in> set xs" "P x" "\<not> P (f x)" "\<And>y. P (f y) \<Longrightarrow> P y"
  shows "length (filter P (map f xs)) < length (filter P xs)"
proof -
  have "filter (P \<circ> f) xs = filter (P \<circ> f) (filter P xs)"
    using assms(4) by (auto intro: filter_cong)
  moreover have "length (filter (P \<circ> f) (filter P xs)) < length (filter P xs)"
    using assms(1-3) by (intro length_filter_less [of x]) auto
  ultimately show ?thesis
    by (simp add: filter_map)
qed

lemma length_filter_map_le:
  assumes "\<And>y. P (f y) \<Longrightarrow> P y"
  shows "length (filter P (map f xs)) \<le> length (filter P xs)"
proof -
  have "filter (P \<circ> f) xs = filter (P \<circ> f) (filter P xs)"
    using assms by (auto intro: filter_cong)
  moreover have "length (filter (P \<circ> f) (filter P xs)) \<le> length (filter P xs)"
    by (rule length_filter_le)
  ultimately have "length (filter (P \<circ> f) xs) \<le> length (filter P xs)"
    by simp
  then show ?thesis by (simp add: filter_map)
qed

lemma find_snoc:
  "find P (xs @ [x]) = (case find P xs of None \<Rightarrow> (if P x then Some x else None) | Some y \<Rightarrow> Some y)"
  by (induction xs) auto

lemma find_SomeD: "find P xs = Some x \<Longrightarrow> x \<in> set xs \<and> P x"
  by (induction xs) (auto split: if_splits)

lemma sort_key_hd_min:
  fixes f :: "'a \<Rightarrow> 'b::linorder"
  assumes "xs \<noteq> []"
  shows "\<exists>pre s post. xs = pre @ s # post \<and> hd (sort_key f xs) = s
           \<and> (\<forall>x\<in>set pre. f s < f x) \<and> (\<forall>x\<in>set post. f s \<le> f x)"
proof -
  obtain s ys where ys: "sort_key f xs = s # ys"
    using assms by (cases "sort_key f xs") (auto dest: arg_cong [where f = length])
  have "sorted (map f (s # ys))"
    using sorted_sort_key [of f xs] by (simp add: ys)
  then have "\<forall>y\<in>set (s # ys). f s \<le> f y" by auto
  moreover have "set xs = set (s # ys)"
    using set_sort [of f xs] by (simp only: ys)
  ultimately have le: "\<forall>x\<in>set xs. f s \<le> f x"
    by simp
  have "filter (\<lambda>y. f y = f s) xs = filter (\<lambda>y. f y = f s) (s # ys)"
    using sort_key_stable [of f "f s" xs] by (simp add: ys)
  then have "s # filter (\<lambda>y. f y = f s) ys = filter (\<lambda>y. f y = f s) xs" by simp
  then obtain us vs where uv: "xs = us @ s # vs" "\<forall>u\<in>set us. f u \<noteq> f s"
    by (auto dest!: Cons_eq_filterD)
  have "\<forall>x\<in>set us. f s < f x"
  proof
    fix x assume "x \<in> set us"
    then have "f s \<le> f x" "f x \<noteq> f s" using uv le by auto
    then show "f s < f x" by simp
  qed
  moreover have "\<forall>x\<in>set vs. f s \<le> f x" using uv le by auto
  ultimately show ?thesis using uv ys by auto
qed

subsection \<open>Calendar dates\<close>

lemma add_days_numeral:
  "add_days dt (numeral k) =
     (case next_day dt of Inl e \<Rightarrow> Inl e | Inr dt' \<Rightarrow> add_days dt' (pred_numeral k))"
  by (simp add: numeral_eq_Suc)

lemmas date_eval = shift_date_def strftime_def zero_pad_def str_nat.simps digit_char_def
  is_digit_def is_digit19_def digit_val_def valid_ymd_def days_in_month_def is_leap_def
  next_day_def add_days_numeral

lemma strptime_error: "strptime s = Inl e \<Longrightarrow> e = ValueError"
  by (cases e) (auto elim!: strptime.elims split: if_splits option.splits list.splits prod.splits simp: Let_def)

lemma shift_date_malformed: "strptime d = Inl e \<Longrightarrow> shift_date d i = Inl ValueError"
  by (auto simp: shift_date_def dest: strptime_error)

lemma shift_date_full_week:
  "shift_date ''2025-06-10'' 1 = Inr ''2025-06-11''"
  "shift_date ''2025-06-10'' 2 = Inr ''2025-06-12''"
  "shift_date ''2025-06-10'' 3 = Inr ''2025-06-13''"
  "shift_date ''2025-06-10'' 4 = Inr ''2025-06-14''"
  "shift_date ''2025-06-10'' 5 = Inr ''2025-06-15''"
  "shift_date ''2025-06-10'' 6 = Inr ''2025-06-16''"
  by (simp_all add: date_eval)

lemma shift_date_unpadded: "shift_date ''0099-06-10'' 1 = Inr ''99-06-11''"
  by (simp add: date_eval)

text \<open>
  \<^const>\<open>next_day\<close> and \<^const>\<open>add_days\<close> agree with the day numbers of the library: one step
  raises \<^const>\<open>toordinal\<close> by one, and a day number belongs to one date only.
\<close>

lemma div_step:
  fixes z k :: int
  assumes "0 < k"
  shows "z div k = (z - 1) div k + (if z mod k = 0 then 1 else 0)"
proof -
  let ?q = "z div k" and ?r = "z mod k"
  have z: "z = ?r + k * ?q" by simp
  have r: "0 \<le> ?r" "?r < k" using assms by simp_all
  have k0: "k \<noteq> 0" using assms by simp
  show ?thesis
  proof (cases "?r = 0")
    case True
    have "z - 1 = (k - 1) + k * (?q - 1)"
      using z True by (simp add: algebra_simps)
    then have "(z - 1) div k = ((k - 1) + k * (?q - 1)) div k"
      by (rule arg_cong)
    also have "\<dots> = (?q - 1) + (k - 1) div k"
      by (rule div_mult_self2 [OF k0])
    also have "(k - 1) div k = 0"
      using assms by (intro div_pos_pos_trivial) simp_all
    finally show ?thesis using True by simp
  next
    case False
    have "z - 1 = (?r - 1) + k * ?q"
      using z by (simp add: algebra_simps)
    then have "(z - 1) div k = ((?r - 1) + k * ?q) div k"
      by (rule arg_cong)
    also have "\<dots> = ?q + (?r - 1) div k"
      by (rule div_mult_self2 [OF k0])
    also have "(?r - 1) div k = 0"
      using r False by (intro div_pos_pos_trivial) simp_all
    finally show ?thesis using False by simp
  qed
qed

lemma mod_int_nat: "(int y mod numeral k = 0) = (y mod numeral k = 0)"
proof -
  have "int y mod numeral k = int (y mod numeral k)" by (simp add: zmod_int)
  then show ?thesis by simp
qed

lemma mod_chain:
  fixes z :: int
  shows "z mod 400 = 0 \<Longrightarrow> z mod 100 = 0" and "z mod 100 = 0 \<Longrightarrow> z mod 4 = 0"
proof -
  have a: "(100::int) dvd 400" "(4::int) dvd 100" by simp_all
  show "z mod 400 = 0 \<Longrightarrow> z mod 100 = 0"
    using dvd_trans [OF a(1), of z] by (simp add: mod_eq_0_iff_dvd)
  show "z mod 100 = 0 \<Longrightarrow> z mod 4 = 0"
    using dvd_trans [OF a(2), of z] by (simp add: mod_eq_0_iff_dvd)
qed


lemma is_leap_int:
  "is_leap y = (int y mod 4 = 0 \<and> (int y mod 100 \<noteq> 0 \<or> int y mod 400 = 0))"
  unfolding is_leap_def by (simp only: mod_int_nat)

lemma leap_count:
  assumes "P400 \<Longrightarrow> P100" and "P100 \<Longrightarrow> P4"
  shows "(if P4 then 1 else 0) - (if P100 then 1 else 0) + (if P400 then 1 else (0::int))
           = (if P4 \<and> (\<not> P100 \<or> P400) then 1 else 0)"
  using assms by auto

lemma leap_len: "365 + (if P then 1 else 0) = (if P then 366 else (365::int))"
  by simp

lemma year_length:
  fixes z :: int
  assumes "q4 = p4 + A" and "q100 = p100 + B" and "q400 = p400 + C" and "A - B + C = L"
  shows "z * 365 + q4 - q100 + q400 = ((z - 1) * 365 + p4 - p100 + p400) + (365 + L)"
  using assms by (simp add: algebra_simps)

lemma days_before_year_Suc:
  "days_before_year (Suc y) = days_before_year y + (if is_leap y then 366 else 365)"
proof -
  define z where "z = int y"
  have a: "z div 4 = (z - 1) div 4 + (if z mod 4 = 0 then 1 else 0)"
    and b: "z div 100 = (z - 1) div 100 + (if z mod 100 = 0 then 1 else 0)"
    and c: "z div 400 = (z - 1) div 400 + (if z mod 400 = 0 then 1 else 0)"
    by (rule div_step, simp)+
  have l: "is_leap y = (z mod 4 = 0 \<and> (z mod 100 \<noteq> 0 \<or> z mod 400 = 0))"
    unfolding z_def by (rule is_leap_int)
  have d: "days_before_year (Suc y) = z * 365 + z div 4 - z div 100 + z div 400"
    and e: "days_before_year y = (z - 1) * 365 + (z - 1) div 4 - (z - 1) div 100 + (z - 1) div 400"
    unfolding days_before_year_def z_def by (simp_all add: Let_def)
  have g: "z * 365 + z div 4 - z div 100 + z div 400
             = ((z - 1) * 365 + (z - 1) div 4 - (z - 1) div 100 + (z - 1) div 400)
               + (365 + (if z mod 4 = 0 \<and> (z mod 100 \<noteq> 0 \<or> z mod 400 = 0) then 1 else 0))"
    by (rule year_length [OF a b c]) (rule leap_count [OF mod_chain])
  show ?thesis
    unfolding d e l g leap_len by (rule refl)
qed

lemma days_before_month_Suc:
  "1 \<le> m \<Longrightarrow> m < 12 \<Longrightarrow>
     days_before_month y (Suc m) = days_before_month y m + int (days_in_month y m)"
proof -
  assume "1 \<le> m" "m < 12"
  then have "m = 1 \<or> m = 2 \<or> m = 3 \<or> m = 4 \<or> m = 5 \<or> m = 6 \<or> m = 7 \<or> m = 8
               \<or> m = 9 \<or> m = 10 \<or> m = 11" by arith
  then show ?thesis
    by (elim disjE) (simp_all add: days_before_month_def days_in_month_def)
qed

lemma days_before_month_1: "days_before_month y (Suc 0) = 0"
  by (simp add: days_before_month_def)

lemma days_before_month_12: "days_before_month y 12 + 31 = (if is_leap y then 366 else 365)"
  by (simp add: days_before_month_def)

lemma days_in_month_12: "days_in_month y 12 = 31"
  by (simp add: days_in_month_def)

lemma days_in_month_pos: "1 \<le> days_in_month y m"
  by (simp add: days_in_month_def)

lemma next_day_ordinal:
  assumes v: "valid_ymd dt" and n: "next_day dt = Inr dt'"
  shows "valid_ymd dt' \<and> toordinal dt' = toordinal dt + 1"
proof -
  obtain y m d where dt: "dt = (y, m, d)" by (cases dt) auto
  from v have b: "1 \<le> y" "y \<le> 9999" "1 \<le> m" "m \<le> 12" "1 \<le> d" "d \<le> days_in_month y m"
    by (simp_all add: dt valid_ymd_def)
  consider (day) "d < days_in_month y m"
    | (month) "d = days_in_month y m" "m < 12"
    | (year) "d = days_in_month y m" "m = 12" "y < 9999"
    | (over) "d = days_in_month y m" "m = 12" "y = 9999"
    using b by linarith
  then show ?thesis
  proof cases
    case day
    with n have "dt' = (y, m, Suc d)" by (simp add: dt next_day_def)
    then show ?thesis using b day by (simp add: valid_ymd_def toordinal_def dt)
  next
    case month
    with n have "dt' = (y, Suc m, Suc 0)" by (simp add: dt next_day_def)
    then show ?thesis
      using b month days_before_month_Suc [OF b(3) month(2), of y] days_in_month_pos [of y "Suc m"]
      by (simp add: valid_ymd_def toordinal_def dt)
  next
    case year
    with n have "dt' = (Suc y, Suc 0, Suc 0)" by (simp add: dt next_day_def days_in_month_12)
    then show ?thesis
      using b year days_before_year_Suc [of y] days_before_month_12 [of y]
      by (simp add: valid_ymd_def toordinal_def dt days_before_month_1 days_in_month_12
               days_in_month_def)
  next
    case over
    with n show ?thesis by (simp add: dt next_day_def days_in_month_12)
  qed
qed

lemma add_days_ordinal:
  "valid_ymd dt \<Longrightarrow> add_days dt i = Inr dt' \<Longrightarrow>
     valid_ymd dt' \<and> toordinal dt' = toordinal dt + int i"
proof (induction i arbitrary: dt)
  case 0
  then show ?case by simp
next
  case (Suc i)
  from Suc.prems(2) obtain dt1 where s: "next_day dt = Inr dt1" "add_days dt1 i = Inr dt'"
    by (auto split: sum.splits)
  from next_day_ordinal [OF Suc.prems(1) s(1)] Suc.IH [OF _ s(2)] show ?case by simp
qed

lemma strptime_valid: "strptime s = Inr dt \<Longrightarrow> valid_ymd dt"
  by (cases s rule: strptime.cases)
     (simp_all add: Let_def split: if_splits option.splits list.splits prod.splits)

lemma shift_date_ordinal:
  assumes "shift_date d i = Inr s"
  shows "\<exists>dt dt'. strptime d = Inr dt \<and> valid_ymd dt \<and> valid_ymd dt'
           \<and> toordinal dt' = toordinal dt + int i \<and> s = strftime dt'"
proof -
  from assms obtain dt dt' where p: "strptime d = Inr dt" "add_days dt i = Inr dt'" "s = strftime dt'"
    by (auto simp: shift_date_def split: sum.splits)
  from strptime_valid [OF p(1)] add_days_ordinal [OF _ p(2)] p show ?thesis by blast
qed


lemma days_before_year_mono:
  "y < y' \<Longrightarrow> days_before_year y + (if is_leap y then 366 else 365) \<le> days_before_year y'"
proof (induction y')
  case 0
  then show ?case by simp
next
  case (Suc k)
  show ?case
  proof (cases "y = k")
    case True
    then show ?thesis by (simp only: days_before_year_Suc order_refl)
  next
    case False
    with Suc.prems have "y < k" by simp
    from Suc.IH [OF this] show ?thesis
      unfolding days_before_year_Suc [of k] by (simp split: if_splits)
  qed
qed

lemma days_before_month_mono:
  "1 \<le> m \<Longrightarrow> m < m' \<Longrightarrow> m' \<le> 12 \<Longrightarrow>
     days_before_month y m + int (days_in_month y m) \<le> days_before_month y m'"
proof (induction m')
  case 0
  then show ?case by simp
next
  case (Suc k)
  show ?case
  proof (cases "m = k")
    case True
    with Suc.prems show ?thesis by (simp add: days_before_month_Suc)
  next
    case False
    with Suc.prems have k: "m < k" "k \<le> 12" "1 \<le> k" "k < 12" by simp_all
    from Suc.IH [OF Suc.prems(1) k(1) k(2)] days_before_month_Suc [OF k(3) k(4), of y]
    show ?thesis by simp
  qed
qed

lemma days_before_month_nonneg: "1 \<le> m \<Longrightarrow> m \<le> 12 \<Longrightarrow> 0 \<le> days_before_month y m"
proof (cases "m = 1")
  case True
  then show ?thesis by (simp add: days_before_month_1)
next
  case False
  assume "1 \<le> m" "m \<le> 12"
  with False have "(1::nat) \<le> 1" "1 < m" "m \<le> 12" by simp_all
  from days_before_month_mono [OF this, of y] show ?thesis
    by (simp add: days_before_month_1)
qed

lemma days_before_month_year:
  "1 \<le> m \<Longrightarrow> m \<le> 12 \<Longrightarrow>
     days_before_month y m + int (days_in_month y m) \<le> (if is_leap y then 366 else 365)"
proof (cases "m = 12")
  case True
  then show ?thesis using days_before_month_12 [of y] by (simp add: days_in_month_12)
next
  case False
  assume "1 \<le> m" "m \<le> 12"
  with False have "1 \<le> m" "m < 12" "(12::nat) \<le> 12" by simp_all
  from days_before_month_mono [OF this, of y] days_before_month_12 [of y] show ?thesis
    by (simp split: if_splits)
qed

lemma toordinal_inj:
  assumes v: "valid_ymd dt" and v': "valid_ymd dt'" and eq: "toordinal dt = toordinal dt'"
  shows "dt = dt'"
proof -
  obtain y m d where dt: "dt = (y, m, d)" by (cases dt) auto
  obtain y' m' d' where dt': "dt' = (y', m', d')" by (cases dt') auto
  from v have b: "1 \<le> m" "m \<le> 12" "1 \<le> d" "d \<le> days_in_month y m"
    by (simp_all add: dt valid_ymd_def)
  from v' have b': "1 \<le> m'" "m' \<le> 12" "1 \<le> d'" "d' \<le> days_in_month y' m'"
    by (simp_all add: dt' valid_ymd_def)
  from eq have e: "days_before_year y + days_before_month y m + int d
                     = days_before_year y' + days_before_month y' m' + int d'"
    by (simp add: dt dt' toordinal_def)
  have years: False if "a < a'" and "1 \<le> k" "k \<le> 12" "c \<le> days_in_month a k"
       and "1 \<le> k'" "k' \<le> 12" "1 \<le> c'"
       and "days_before_year a + days_before_month a k + int c
              = days_before_year a' + days_before_month a' k' + int c'"
    for a a' k k' c c'
    using days_before_year_mono [OF that(1)] days_before_month_year [OF that(2,3), of a]
      days_before_month_nonneg [OF that(5,6), of a'] that(4,7,8)
    by (simp split: if_splits)
  have months: False if "k < k'" and "1 \<le> k" "k' \<le> 12" "c \<le> days_in_month a k" "1 \<le> c'"
       and "days_before_month a k + int c = days_before_month a k' + int c'"
    for a k k' c c'
    using days_before_month_mono [OF that(2) that(1) that(3), of a] that(4,5,6) by simp
  have y: "y = y'"
    using years [OF _ b(1,2,4) b'(1,2,3) e] years [OF _ b'(1,2,4) b(1,2,3) e [symmetric]]
    by (cases y y' rule: linorder_cases) auto
  from e have e': "days_before_month y' m + int d = days_before_month y' m' + int d'"
    by (simp add: y)
  have m: "m = m'"
  proof (cases m m' rule: linorder_cases)
    case less
    from months [OF less b(1) b'(2) b(4) [unfolded y] b'(3) e'] show ?thesis ..
  next
    case greater
    from months [OF greater b'(1) b(2) b'(4) b(3) e' [symmetric]] show ?thesis ..
  qed
  from e show ?thesis by (simp add: dt dt' y m)
qed

subsection \<open>Slot counts\<close>

lemma dict_get_occupancy:
  "slot \<in> set AVAILABLE_SLOTS \<Longrightarrow>
    dict_get (get_slot_occupancy db date cid) slot 0 = existing_bookings db date slot cid"
  by (auto simp: dict_get_def get_slot_occupancy_def map_of_map_restrict split: option.splits)

lemma existing_bookings_snoc:
  "existing_bookings (db\<lparr>bookings := bookings db @ [b]\<rparr>) d t c
     = existing_bookings db d t c + (if slot_filter d t c b then 1 else 0)"
  by (simp add: existing_bookings_def)

lemma existing_bookings_cong:
  "bookings db' = bookings db \<Longrightarrow> existing_bookings db' d t c = existing_bookings db d t c"
  by (simp add: existing_bookings_def)

lemma capacity_ok_cong:
  "bookings db' = bookings db \<Longrightarrow> capacity_ok db' = capacity_ok db"
  by (simp add: capacity_ok_def existing_bookings_def)

lemma slot_filter_renumber:
  "length (filter (slot_filter d t c) (renumber bs)) = length (filter (slot_filter d t c) bs)"
proof -
  have "filter (slot_filter d t c) (renumber bs)
          = map (\<lambda>(i, b). b\<lparr>b_id := int i + 1\<rparr>) (filter (slot_filter d t c \<circ> snd) (enumerate 0 bs))"
    unfolding renumber_def filter_map
    by (rule arg_cong [where f = "map _"], rule filter_cong) (auto simp: slot_filter_def)
  then have "length (filter (slot_filter d t c) (renumber bs))
          = length (filter (slot_filter d t c \<circ> snd) (enumerate 0 bs))"
    by simp
  also have "\<dots> = length (map snd (filter (slot_filter d t c \<circ> snd) (enumerate 0 bs)))"
    by simp
  also have "\<dots> = length (filter (slot_filter d t c) (map snd (enumerate 0 bs)))"
    by (simp only: filter_map)
  finally show ?thesis by simp
qed

lemma load_db_at_least:
  assumes "(d, t, n) \<in> set ls"
  shows "int n \<le> existing_bookings (load_db ls) d t 1"
proof -
  let ?row = "\<lambda>(d, t, n). replicate n (confirmed_booking 0 d t 1)"
  have "n \<le> length (filter (slot_filter d t 1) (concat (map ?row ls)))"
    using assms
  proof (induction ls)
    case Nil
    then show ?case by simp
  next
    case (Cons x xs)
    show ?case
    proof (cases "x = (d, t, n)")
      case True
      then show ?thesis by (simp add: slot_filter_def confirmed_booking_def)
    next
      case False
      with Cons show ?thesis by auto
    qed
  qed
  then show ?thesis
    by (simp add: existing_bookings_def load_db_def empty_db_def slot_filter_renumber)
qed

lemma load_db_day_full:
  assumes "\<forall>slot\<in>set AVAILABLE_SLOTS. (d, slot, 5) \<in> set ls"
  shows "day_full (load_db ls) d 1"
  unfolding day_full_def
proof
  fix slot assume "slot \<in> set AVAILABLE_SLOTS"
  with assms have "(d, slot, 5) \<in> set ls" by simp
  from load_db_at_least [OF this]
  show "\<not> check_slot_availability (load_db ls) d slot 1"
    by (simp add: check_slot_availability_def SLOTS_PER_TIMEFRAME_def)
qed

lemma full_week_db_day_full:
  assumes "d \<in> set full_week_days"
  shows "day_full full_week_db d 1"
  unfolding day_full_def
proof
  fix slot assume "slot \<in> set AVAILABLE_SLOTS"
  with assms have "(d, slot) \<in> set (List.product full_week_days AVAILABLE_SLOTS)"
    by (simp only: set_product mem_Times_iff fst_conv snd_conv)
  then have "(d, slot, 5) \<in> set (map (\<lambda>(d, t). (d, t, 5))
       (List.product full_week_days AVAILABLE_SLOTS))"
    by (simp only: set_map) (rule image_eqI [where x = "(d, slot)"], simp_all)
  from load_db_at_least [OF this]
  show "\<not> check_slot_availability full_week_db d slot 1"
    by (simp add: full_week_db_def check_slot_availability_def SLOTS_PER_TIMEFRAME_def)
qed

lemma week_full_free:
  "slot \<in> set AVAILABLE_SLOTS \<Longrightarrow> check_slot_availability db d slot c \<Longrightarrow> \<not> week_full db d c"
  by (auto simp: week_full_def day_full_def)

subsection \<open>Tiers of the slot search\<close>

lemma day_full_find:
  "day_full db date cid \<Longrightarrow>
     find (\<lambda>slot. check_slot_availability db date slot cid) AVAILABLE_SLOTS = None"
  by (simp add: day_full_def find_None_iff)

lemma day_full_find_sorted:
  "day_full db date cid \<Longrightarrow>
     find (\<lambda>slot. check_slot_availability db date slot cid) (sort_key f AVAILABLE_SLOTS) = None"
  by (simp add: day_full_def find_None_iff)

lemma search_days_full:
  assumes "\<forall>i\<in>set is. case shift_date d i of Inl e \<Rightarrow> False | Inr sd \<Rightarrow> day_full db sd c"
  shows "search_days db d c is = Inr None"
  using assms by (induction "is") (auto split: sum.splits simp: day_full_find)

lemma day_full_iff_find:
  "find (\<lambda>slot. check_slot_availability db date slot cid) AVAILABLE_SLOTS = None
     \<longleftrightarrow> day_full db date cid"
  by (auto simp: day_full_def find_None_iff)

lemma day_full_iff_find_sorted:
  "find (\<lambda>slot. check_slot_availability db date slot cid) (sort_key f AVAILABLE_SLOTS) = None
     \<longleftrightarrow> day_full db date cid"
  by (auto simp: day_full_def find_None_iff)

lemma search_days_Some:
  "search_days db d c is = Inr (Some (sd, slot)) \<Longrightarrow>
     slot \<in> set AVAILABLE_SLOTS \<and> check_slot_availability db sd slot c"
  by (induction "is") (auto split: sum.splits option.splits dest: find_SomeD)

lemma search_days_None:
  "search_days db d c is = Inr None \<Longrightarrow>
     \<forall>i\<in>set is. case shift_date d i of Inl e \<Rightarrow> False | Inr sd \<Rightarrow> day_full db sd c"
  by (induction "is") (auto split: sum.splits option.splits simp: day_full_iff_find)

text \<open>The tiers of \<^verbatim>\<open>find_preferred_slot\<close>, one case per way out of the function.\<close>

lemma find_preferred_slot_cases:
  obtains
    (exact) "t \<in> set AVAILABLE_SLOTS" "check_slot_availability db d t c"
      "find_preferred_slot db d t c = Inr (d, t)"
  | (same_day) s where "s \<in> set AVAILABLE_SLOTS" "check_slot_availability db d s c"
      "find_preferred_slot db d t c = Inr (d, s)"
  | (date_error) e where "day_full db d c" "shift_date d 1 = Inl e"
      "find_preferred_slot db d t c = Inl e"
  | (next_day) nd s where "day_full db d c" "shift_date d 1 = Inr nd"
      "s \<in> set AVAILABLE_SLOTS" "check_slot_availability db nd s c"
      "find_preferred_slot db d t c = Inr (nd, s)"
  | (later_error) nd e where "day_full db d c" "shift_date d 1 = Inr nd"
      "search_days db d c [2, 3, 4, 5, 6] = Inl e"
      "find_preferred_slot db d t c = Inl e"
  | (later) nd sd s where "day_full db d c" "shift_date d 1 = Inr nd" "day_full db nd c"
      "s \<in> set AVAILABLE_SLOTS" "check_slot_availability db sd s c"
      "find_preferred_slot db d t c = Inr (sd, s)"
  | (exhausted) nd where "week_full db d c" "shift_date d 1 = Inr nd"
      "find_preferred_slot db d t c = Inr (nd, ''09:00'')"
proof (cases "t \<in> set AVAILABLE_SLOTS \<and> check_slot_availability db d t c")
  case True
  then show ?thesis by (intro exact) (simp_all add: find_preferred_slot_def)
next
  case t1: False
  let ?f = "\<lambda>x. dict_get (get_slot_occupancy db d c) x 0"
  show ?thesis
  proof (cases "find (\<lambda>slot. check_slot_availability db d slot c) (sort_key ?f AVAILABLE_SLOTS)")
    case (Some s)
    from find_SomeD [OF Some] have "s \<in> set AVAILABLE_SLOTS" "check_slot_availability db d s c"
      by simp_all
    moreover have "find_preferred_slot db d t c = Inr (d, s)"
      using t1 Some by (auto simp: find_preferred_slot_def Let_def simp del: search_days.simps)
    ultimately show ?thesis by (rule same_day)
  next
    case t2: None
    then have full: "day_full db d c" by (simp add: day_full_iff_find_sorted)
    show ?thesis
    proof (cases "shift_date d 1")
      case (Inl e)
      have "find_preferred_slot db d t c = Inl e"
        using t1 t2 Inl by (auto simp: find_preferred_slot_def Let_def simp del: search_days.simps)
      with full Inl show ?thesis by (rule date_error)
    next
      case nd: (Inr nd)
      show ?thesis
      proof (cases "find (\<lambda>slot. check_slot_availability db nd slot c) AVAILABLE_SLOTS")
        case (Some s)
        from find_SomeD [OF Some]
        have "s \<in> set AVAILABLE_SLOTS" "check_slot_availability db nd s c" by simp_all
        moreover have "find_preferred_slot db d t c = Inr (nd, s)"
          using t1 t2 nd Some by (auto simp: find_preferred_slot_def Let_def simp del: search_days.simps)
        ultimately show ?thesis using full nd by (intro next_day [of nd s])
      next
        case t3: None
        then have nfull: "day_full db nd c" by (simp add: day_full_iff_find)
        show ?thesis
        proof (cases "search_days db d c [2, 3, 4, 5, 6]")
          case (Inl e)
          have "find_preferred_slot db d t c = Inl e"
            using t1 t2 nd t3 Inl by (auto simp: find_preferred_slot_def Let_def simp del: search_days.simps)
          with full nd Inl show ?thesis by (intro later_error [of nd e])
        next
          case (Inr r)
          show ?thesis
          proof (cases r)
            case None
            have first_slot: "AVAILABLE_SLOTS ! 0 = ''09:00''"
              by (simp add: AVAILABLE_SLOTS_def)
            from search_days_None [OF Inr [unfolded None]] nd nfull full
            have "week_full db d c" by (simp add: week_full_def)
            moreover have "find_preferred_slot db d t c = Inr (nd, ''09:00'')"
              using t1 t2 nd t3 Inr None first_slot
              by (auto simp: find_preferred_slot_def Let_def simp del: search_days.simps)
            ultimately show ?thesis using nd by (intro exhausted [of nd])
          next
            case (Some p)
            obtain sd s where p: "p = (sd, s)" by (cases p)
            from search_days_Some [OF Inr [unfolded Some p]]
            have "s \<in> set AVAILABLE_SLOTS" "check_slot_availability db sd s c" by simp_all
            moreover have "find_preferred_slot db d t c = Inr (sd, s)"
              using t1 t2 nd t3 Inr Some p by (auto simp: find_preferred_slot_def Let_def simp del: search_days.simps)
            ultimately show ?thesis using full nd nfull by (intro later [of nd s sd])
          qed
        qed
      qed
    qed
  qed
qed

lemma find_preferred_slot_label:
  assumes "find_preferred_slot db d t c = Inr (d', t')"
  shows "t' \<in> set AVAILABLE_SLOTS"
  using assms
  by (cases rule: find_preferred_slot_cases [of t db d c]) (auto simp: AVAILABLE_SLOTS_def)

lemma find_preferred_slot_malformed:
  assumes "strptime d = Inl e"
  shows "day_full db d c \<Longrightarrow> find_preferred_slot db d t c = Inl ValueError"
    and "\<not> day_full db d c \<Longrightarrow> \<exists>s. find_preferred_slot db d t c = Inr (d, s)"
    and "find_preferred_slot db d t c = Inr (d', t') \<Longrightarrow> d' = d"
proof -
  note sh = shift_date_malformed [OF assms]
  show "find_preferred_slot db d t c = Inl ValueError" if "day_full db d c"
    using that
    by (cases rule: find_preferred_slot_cases [of t db d c]) (auto simp: sh day_full_def)
  show "\<exists>s. find_preferred_slot db d t c = Inr (d, s)" if "\<not> day_full db d c"
    using that
    by (cases rule: find_preferred_slot_cases [of t db d c]) (auto simp: week_full_def)
  show "d' = d" if "find_preferred_slot db d t c = Inr (d', t')"
    using that
    by (cases rule: find_preferred_slot_cases [of t db d c]) (auto simp: sh)
qed

lemma find_preferred_slot_available:
  assumes "find_preferred_slot db d t c = Inr (d', t')" and "\<not> week_full db d c"
  shows "check_slot_availability db d' t' c"
  using assms by (cases rule: find_preferred_slot_cases [of t db d c]) auto

subsection \<open>Outcomes of a scheduling request\<close>

lemma create_or_get_user_tables:
  assumes "create_or_get_user db n p e = Inr (u, db1)"
  shows "bookings db1 = bookings db" "vehicles db1 = vehicles db"
    "service_centers db1 = service_centers db"
    "find (\<lambda>x. u_phone x = p) (users db1) = Some u"
    "users db1 = users db \<or> (find (\<lambda>x. u_phone x = p) (users db) = None \<and> users db1 = users db @ [u])"
  using assms
  by (auto simp: create_or_get_user_def Let_def find_snoc split: option.splits if_splits)

lemma create_or_get_user_error:
  "create_or_get_user db n p e = Inl err \<Longrightarrow> err = IntegrityError"
  by (auto simp: create_or_get_user_def Let_def split: option.splits if_splits)

lemma create_or_get_vehicle_tables:
  assumes "create_or_get_vehicle db uid mk md yr = Inr (v, db1)"
  shows "bookings db1 = bookings db" "users db1 = users db"
    "service_centers db1 = service_centers db"
    "find (\<lambda>x. v_user_id x = uid \<and> v_make x = mk \<and> v_model x = md) (vehicles db1) = Some v"
  using assms
  by (auto simp: create_or_get_vehicle_def Let_def find_snoc split: option.splits if_splits)

lemma create_or_get_vehicle_error:
  "create_or_get_vehicle db uid mk md yr = Inl err \<Longrightarrow> err = OverflowError \<and> \<not> fits_integer yr"
  by (auto simp: create_or_get_vehicle_def Let_def split: option.splits if_splits)

text \<open>The ways a scheduling request can end.\<close>

lemma schedule_appointment_cases:
  obtains
    (slot_error) e where
      "find_preferred_slot db (preferred_date req) (preferred_time req)
         (find_best_service_center db) = Inl e"
      "schedule_appointment db req = (Inl (HTTPException 400 e), db)"
  | (user_error) d t e where
      "find_preferred_slot db (preferred_date req) (preferred_time req)
         (find_best_service_center db) = Inr (d, t)"
      "create_or_get_user db (user_name req) (phone req) (email req) = Inl e"
      "schedule_appointment db req = (Inl (HTTPException 400 e), db)"
  | (vehicle_error) d t u db1 e where
      "find_preferred_slot db (preferred_date req) (preferred_time req)
         (find_best_service_center db) = Inr (d, t)"
      "create_or_get_user db (user_name req) (phone req) (email req) = Inr (u, db1)"
      "create_or_get_vehicle db1 (u_id u) (vehicle_make req) (vehicle_model req)
         (vehicle_year req) = Inl e"
      "schedule_appointment db req = (Inl (HTTPException 400 e), db1)"
  | (booked) d t u db1 v db2 r b where
      "find_preferred_slot db (preferred_date req) (preferred_time req)
         (find_best_service_center db) = Inr (d, t)"
      "create_or_get_user db (user_name req) (phone req) (email req) = Inr (u, db1)"
      "create_or_get_vehicle db1 (u_id u) (vehicle_make req) (vehicle_model req)
         (vehicle_year req) = Inr (v, db2)"
      "b = \<lparr>b_id = next_id (map b_id (bookings db2)), b_user_id = u_id u,
            b_vehicle_id = v_id v, b_service_center_id = find_best_service_center db,
            b_date = d, b_time = t, b_service_type = service_type req, b_status = Confirmed\<rparr>"
      "schedule_appointment db req = (Inr r, db2\<lparr>bookings := bookings db2 @ [b]\<rparr>)"
      "booking_id r = b_id b" "assigned_slot r = (d, t)"
      "details r = get_booking_details d t (find_best_service_center db)
                     (db2\<lparr>bookings := bookings db2 @ [b]\<rparr>)"
proof (cases "find_preferred_slot db (preferred_date req) (preferred_time req)
         (find_best_service_center db)")
  case (Inl e)
  then show ?thesis by (intro slot_error [of e]) (simp_all add: schedule_appointment_def)
next
  case (Inr dt)
  obtain d t where dt: "dt = (d, t)" by (cases dt)
  note slot = Inr [unfolded dt]
  show ?thesis
  proof (cases "create_or_get_user db (user_name req) (phone req) (email req)")
    case (Inl e)
    with slot show ?thesis
      by (intro user_error [of d t e]) (simp_all add: schedule_appointment_def Let_def)
  next
    case (Inr udb)
    obtain u db1 where udb: "udb = (u, db1)" by (cases udb)
    note usr = Inr [unfolded udb]
    show ?thesis
    proof (cases "create_or_get_vehicle db1 (u_id u) (vehicle_make req) (vehicle_model req)
         (vehicle_year req)")
      case (Inl e)
      with slot usr show ?thesis
        by (intro vehicle_error [of d t u db1 e]) (simp_all add: schedule_appointment_def Let_def)
    next
      case (Inr vdb)
      obtain v db2 where vdb: "vdb = (v, db2)" by (cases vdb)
      note veh = Inr [unfolded vdb]
      let ?b = "\<lparr>b_id = next_id (map b_id (bookings db2)), b_user_id = u_id u,
            b_vehicle_id = v_id v, b_service_center_id = find_best_service_center db,
            b_date = d, b_time = t, b_service_type = service_type req, b_status = Confirmed\<rparr>"
      from slot usr veh
      have "\<exists>r. schedule_appointment db req = (Inr r, db2\<lparr>bookings := bookings db2 @ [?b]\<rparr>)
                \<and> booking_id r = b_id ?b \<and> assigned_slot r = (d, t)
                \<and> details r = get_booking_details d t (find_best_service_center db)
                                  (db2\<lparr>bookings := bookings db2 @ [?b]\<rparr>)"
        by (simp add: schedule_appointment_def Let_def)
      then obtain r where
        "schedule_appointment db req = (Inr r, db2\<lparr>bookings := bookings db2 @ [?b]\<rparr>)"
        "booking_id r = b_id ?b" "assigned_slot r = (d, t)"
        "details r = get_booking_details d t (find_best_service_center db)
                       (db2\<lparr>bookings := bookings db2 @ [?b]\<rparr>)"
        by blast
      with slot usr veh show ?thesis
        by (intro booked [of d t u db1 v db2 ?b r]) simp_all
    qed
  qed
qed

lemma schedule_appointment_capacity:
  assumes ok: "capacity_ok db"
    and room: "\<not> week_full db (preferred_date req) (find_best_service_center db)"
  shows "capacity_ok (snd (schedule_appointment db req))"
proof (cases rule: schedule_appointment_cases [of db req])
  case (slot_error e)
  with ok show ?thesis by simp
next
  case (user_error d t e)
  with ok show ?thesis by simp
next
  case (vehicle_error d t u db1 e)
  have "capacity_ok db1 = capacity_ok db"
    by (rule capacity_ok_cong) (rule create_or_get_user_tables(1) [OF vehicle_error(2)])
  with ok vehicle_error(4) show ?thesis by simp
next
  case (booked d t u db1 v db2 r b)
  let ?c = "find_best_service_center db"
  have bk: "bookings db2 = bookings db"
    using create_or_get_user_tables(1) [OF booked(2)]
      create_or_get_vehicle_tables(1) [OF booked(3)] by simp
  have free: "existing_bookings db d t ?c < 5"
    using find_preferred_slot_available [OF booked(1) room]
    by (simp add: check_slot_availability_def SLOTS_PER_TIMEFRAME_def)
  have "existing_bookings (db2\<lparr>bookings := bookings db2 @ [b]\<rparr>) d' t' c' \<le> 5" for d' t' c'
  proof (cases "slot_filter d' t' c' b")
    case True
    then have "d' = d" "t' = t" "c' = ?c"
      using booked(4) by (simp_all add: slot_filter_def)
    with free show ?thesis
      by (simp add: existing_bookings_snoc True existing_bookings_cong [OF bk])
  next
    case False
    with ok show ?thesis
      by (simp add: existing_bookings_snoc existing_bookings_cong [OF bk] capacity_ok_def
          SLOTS_PER_TIMEFRAME_def)
  qed
  then show ?thesis
    using booked(5) by (simp add: capacity_ok_def SLOTS_PER_TIMEFRAME_def)
qed

lemma cancel_booking_capacity:
  assumes "capacity_ok db"
  shows "capacity_ok (snd (cancel_booking db i))"
proof (cases "find (\<lambda>b. b_id b = i) (bookings db)")
  case None
  with assms show ?thesis by (simp add: cancel_booking_def)
next
  case (Some b)
  let ?upd = "\<lambda>r. if b_id r = i then r\<lparr>b_status := Cancelled\<rparr> else r"
  have "length (filter (slot_filter d t c) (map ?upd (bookings db)))
          \<le> length (filter (slot_filter d t c) (bookings db))" for d t c
    by (rule length_filter_map_le) (auto simp: slot_filter_def split: if_splits)
  then have "existing_bookings (snd (cancel_booking db i)) d t c \<le> existing_bookings db d t c"
    for d t c
    by (simp add: cancel_booking_def Some existing_bookings_def)
  moreover have "existing_bookings db d t c \<le> SLOTS_PER_TIMEFRAME" for d t c
    using assms by (simp add: capacity_ok_def)
  ultimately have "existing_bookings (snd (cancel_booking db i)) d t c \<le> SLOTS_PER_TIMEFRAME"
    for d t c
    by (rule order_trans)
  then show ?thesis
    by (simp add: capacity_ok_def)
qed

lemma send_completion_notification_capacity:
  assumes "capacity_ok db"
    and "list_all (\<lambda>r. b_id r = i \<longrightarrow> b_status r \<noteq> Cancelled) (bookings db)"
  shows "capacity_ok (snd (send_completion_notification db i))"
proof -
  let ?upd = "\<lambda>r. if b_id r = i then r\<lparr>b_status := Completed\<rparr> else r"
  have "filter (slot_filter d t c) (map ?upd (bookings db))
          = map ?upd (filter (slot_filter d t c) (bookings db))" for d t c
    using assms(2) unfolding filter_map
    by (intro arg_cong [where f = "map ?upd"] filter_cong refl)
       (auto simp: slot_filter_def list_all_iff)
  then have same: "existing_bookings (db\<lparr>bookings := map ?upd (bookings db)\<rparr>) d t c
                     = existing_bookings db d t c" for d t c
    by (simp add: existing_bookings_def)
  have "bookings (snd (send_completion_notification db i)) = bookings db
          \<or> snd (send_completion_notification db i) = db\<lparr>bookings := map ?upd (bookings db)\<rparr>"
    by (simp add: send_completion_notification_def split: option.splits)
  then show ?thesis
  proof
    assume "bookings (snd (send_completion_notification db i)) = bookings db"
    then have "capacity_ok (snd (send_completion_notification db i)) = capacity_ok db"
      by (rule capacity_ok_cong)
    with assms(1) show ?thesis by simp
  next
    assume "snd (send_completion_notification db i) = db\<lparr>bookings := map ?upd (bookings db)\<rparr>"
    with assms(1) same show ?thesis by (simp add: capacity_ok_def)
  qed
qed

subsection \<open>Arithmetic of the day optimizer's percentage\<close>








subsection \<open>The capacity invariant (C1)\<close>

text \<open>
  C1, as stated, fails: \<^verbatim>\<open>create_booking\<close> stores the preferred slot without counting
  what it already holds. Six such requests for one slot from the start-up store leave six
  Confirmed bookings on one (date, time, centre) triple.
\<close>

theorem capacity_invariant_counterexample:
  "\<not> capacity_ok (foldl handle seeded_db (replicate 6 (Create sample_request)))"
proof
  assume "capacity_ok (foldl handle seeded_db (replicate 6 (Create sample_request)))"
  then have "existing_bookings (foldl handle seeded_db (replicate 6 (Create sample_request)))
          ''2025-06-10'' ''10:00'' 1 \<le> 5"
    unfolding capacity_ok_def SLOTS_PER_TIMEFRAME_def by blast
  moreover
  have "existing_bookings (foldl handle seeded_db (replicate 6 (Create sample_request)))
          ''2025-06-10'' ''10:00'' 1 = 6"
    by code_simp
  ultimately show False by simp
qed

text \<open>
  The completion notification is a second way past the limit, with scheduling requests
  only: it sets Completed on a row whatever its status, so a cancelled booking whose place
  has been given to another counts again. After five bookings of 2025-06-10 10:00, the
  cancellation of the first, a sixth booking and the completion of the first, the slot
  holds six bookings that are not Cancelled.
\<close>

lemma send_completion_notification_revives:
  "existing_bookings (foldl handle seeded_db revival_run) ''2025-06-10'' ''10:00'' 1 = 6"
  by code_simp

text \<open>
  C1, amended. From a store that satisfies the capacity invariant, every run of scheduling
  requests, cancellations and completion notifications in which each scheduling request
  arrives while its week (the preferred date and the six days after it) is not wholly
  full at the selected centre, and no completion notification names a cancelled booking,
  leads to a store that satisfies it: at most five non-cancelled bookings share any
  (date, time, centre) triple.
\<close>

theorem capacity_invariant_within_horizon:
  assumes "capacity_ok db" and "within_horizon db rs"
  shows "capacity_ok (foldl handle db rs)"
  using assms
proof (induction rs arbitrary: db)
  case Nil
  then show ?case by simp
next
  case (Cons r rs)
  show ?case
  proof (cases r)
    case (Schedule b)
    with Cons.prems have "capacity_ok (handle db r)" "within_horizon (handle db r) rs"
      by (simp_all add: schedule_appointment_capacity)
    then show ?thesis using Cons.IH by simp
  next
    case (Create b)
    with Cons.prems show ?thesis by simp
  next
    case (Cancel i)
    with Cons.prems have "capacity_ok (handle db r)" "within_horizon (handle db r) rs"
      by (simp_all add: cancel_booking_capacity)
    then show ?thesis using Cons.IH by simp
  next
    case (Complete i)
    with Cons.prems have "capacity_ok (handle db r)" "within_horizon (handle db r) rs"
      by (simp_all add: send_completion_notification_capacity)
    then show ?thesis using Cons.IH by simp
  qed
qed

theorem capacity_invariant_within_horizon_witness:
  "capacity_ok seeded_db \<and> within_horizon seeded_db sample_run
    \<and> capacity_ok (foldl handle seeded_db sample_run)"
proof -
  let ?s1 = "handle seeded_db (Schedule sample_request)"
  let ?s3 = "handle (handle ?s1 (Schedule sample_request)) (Cancel 1)"
  let ?s4 = "handle ?s3 (Schedule sample_request)"
  have mem: "''09:00'' \<in> set AVAILABLE_SLOTS" by (simp add: AVAILABLE_SLOTS_def)
  have pd: "preferred_date sample_request = ''2025-06-10''" by (simp add: sample_request_def)
  have "check_slot_availability seeded_db ''2025-06-10'' ''09:00''
          (find_best_service_center seeded_db)"
    by code_simp
  note g0 = week_full_free [OF mem this]
  have "check_slot_availability ?s1 ''2025-06-10'' ''09:00'' (find_best_service_center ?s1)"
    by code_simp
  note g1 = week_full_free [OF mem this]
  have "check_slot_availability ?s3 ''2025-06-10'' ''09:00'' (find_best_service_center ?s3)"
    by code_simp
  note g3 = week_full_free [OF mem this]
  have g4: "list_all (\<lambda>r. b_id r = 2 \<longrightarrow> b_status r \<noteq> Cancelled) (bookings ?s4)"
    by code_simp
  have ok: "capacity_ok seeded_db"
    by (simp add: capacity_ok_def existing_bookings_def seeded_db_def
        initialize_service_centers_def empty_db_def SLOTS_PER_TIMEFRAME_def)
  have run: "within_horizon seeded_db sample_run"
    using g0 g1 g3 g4 by (simp add: sample_run_def pd)
  from ok run capacity_invariant_within_horizon [OF ok run] show ?thesis by simp
qed

subsection \<open>Atomicity of the scheduling request (C2)\<close>

text \<open>
  C2, as stated, fails: the user, the vehicle and the booking are committed one after the
  other, so a request whose vehicle insert is refused leaves its newly created user in the
  store, with no vehicle and no booking.
\<close>

theorem schedule_appointment_atomicity_counterexample:
  "users seeded_db = []
    \<and> fst (schedule_appointment seeded_db overflow_request)
         = Inl (HTTPException 400 OverflowError)
    \<and> users (snd (schedule_appointment seeded_db overflow_request))
         = [\<lparr>u_id = 1, u_name = ''Asha Rao'', u_phone = ''9000000001'',
             u_email = ''asha@example.com''\<rparr>]
    \<and> vehicles (snd (schedule_appointment seeded_db overflow_request)) = []
    \<and> bookings (snd (schedule_appointment seeded_db overflow_request)) = []"
  by code_simp

text \<open>
  C2, amended. A successful scheduling request leaves the user (found by phone), the
  vehicle (found by user, make and model) and the new Confirmed booking in the store
  together. A failed request persists no booking and no vehicle and leaves the centres
  alone; the users are unchanged too, except when the failure is the refused vehicle
  insert, where a user newly created by this request stays persisted.
\<close>

theorem schedule_appointment_persistence:
  "(\<forall>r db'. schedule_appointment db req = (Inr r, db') \<longrightarrow>
      (\<exists>u v b. find (\<lambda>x. u_phone x = phone req) (users db') = Some u
         \<and> find (\<lambda>x. v_user_id x = u_id u \<and> v_make x = vehicle_make req
                       \<and> v_model x = vehicle_model req) (vehicles db') = Some v
         \<and> bookings db' = bookings db @ [b]
         \<and> b_id b = booking_id r \<and> b_user_id b = u_id u \<and> b_vehicle_id b = v_id v
         \<and> b_status b = Confirmed))
   \<and> (\<forall>e db'. schedule_appointment db req = (Inl e, db') \<longrightarrow>
        bookings db' = bookings db \<and> vehicles db' = vehicles db
        \<and> service_centers db' = service_centers db
        \<and> (users db' = users db
            \<or> (e = HTTPException 400 OverflowError \<and> \<not> fits_integer (vehicle_year req)
                \<and> find (\<lambda>x. u_phone x = phone req) (users db) = None
                \<and> (\<exists>u. users db' = users db @ [u] \<and> u_phone u = phone req))))"
proof (cases rule: schedule_appointment_cases [of db req])
  case (slot_error e)
  then show ?thesis by simp
next
  case (user_error d t e)
  then show ?thesis by simp
next
  case (vehicle_error d t u db1 e)
  note u = create_or_get_user_tables [OF vehicle_error(2)]
  from create_or_get_vehicle_error [OF vehicle_error(3)]
  have e: "e = OverflowError" "\<not> fits_integer (vehicle_year req)" by simp_all
  from u(4,5) have "users db1 = users db
     \<or> (find (\<lambda>x. u_phone x = phone req) (users db) = None
          \<and> (\<exists>u. users db1 = users db @ [u] \<and> u_phone u = phone req))"
    by (auto dest: find_SomeD)
  with u(1-3) e vehicle_error(4) show ?thesis by auto
next
  case (booked d t u db1 v db2 r b)
  note u = create_or_get_user_tables [OF booked(2)]
  note v = create_or_get_vehicle_tables [OF booked(3)]
  have "find (\<lambda>x. u_phone x = phone req) (users (db2\<lparr>bookings := bookings db2 @ [b]\<rparr>)) = Some u"
    using u(4) v(2) by simp
  moreover have "find (\<lambda>x. v_user_id x = u_id u \<and> v_make x = vehicle_make req
                       \<and> v_model x = vehicle_model req)
                  (vehicles (db2\<lparr>bookings := bookings db2 @ [b]\<rparr>)) = Some v"
    using v(4) by simp
  moreover have "bookings (db2\<lparr>bookings := bookings db2 @ [b]\<rparr>) = bookings db @ [b]"
    using u(1) v(1) by simp
  moreover have "b_id b = booking_id r" "b_user_id b = u_id u" "b_vehicle_id b = v_id v"
    "b_status b = Confirmed"
    using booked(4,6) by simp_all
  ultimately show ?thesis
    using booked(5) by auto
qed

theorem schedule_appointment_persistence_witness:
  "(\<exists>r db'. schedule_appointment seeded_db sample_request = (Inr r, db')
      \<and> (\<exists>u v b. find (\<lambda>x. u_phone x = phone sample_request) (users db') = Some u
         \<and> find (\<lambda>x. v_user_id x = u_id u \<and> v_make x = vehicle_make sample_request
                       \<and> v_model x = vehicle_model sample_request) (vehicles db') = Some v
         \<and> bookings db' = bookings seeded_db @ [b]
         \<and> b_id b = booking_id r \<and> b_user_id b = u_id u \<and> b_vehicle_id b = v_id v
         \<and> b_status b = Confirmed))
   \<and> (\<exists>e db'. schedule_appointment seeded_db overflow_request = (Inl e, db')
        \<and> bookings db' = bookings seeded_db \<and> vehicles db' = vehicles seeded_db
        \<and> service_centers db' = service_centers seeded_db)"
proof -
  have "case schedule_appointment seeded_db sample_request of
          (Inr r, db') \<Rightarrow> True | (Inl e, db') \<Rightarrow> False"
    by code_simp
  then obtain r db' where ok: "schedule_appointment seeded_db sample_request = (Inr r, db')"
    by (auto split: prod.splits sum.splits)
  have "case schedule_appointment seeded_db overflow_request of
          (Inr r, db') \<Rightarrow> False | (Inl e, db') \<Rightarrow> True"
    by code_simp
  then obtain e db'' where
    bad: "schedule_appointment seeded_db overflow_request = (Inl e, db'')"
    by (auto split: prod.splits sum.splits)
  from ok bad schedule_appointment_persistence [of seeded_db sample_request]
    schedule_appointment_persistence [of seeded_db overflow_request]
  show ?thesis by simp
qed

subsection \<open>Malformed dates and times (C3)\<close>

text \<open>
  C3, as stated, fails: neither the date nor the time is validated. A request with the
  date "not-a-date" and the time "25:99" succeeds and stores a booking under that date.
\<close>

theorem schedule_appointment_malformed_counterexample:
  "strptime (preferred_date malformed_request) = Inl ValueError
    \<and> preferred_time malformed_request \<notin> set AVAILABLE_SLOTS
    \<and> (case schedule_appointment seeded_db malformed_request of
          (Inl e, db') \<Rightarrow> False
        | (Inr r, db') \<Rightarrow>
            assigned_slot r = (''not-a-date'', ''09:00'')
            \<and> bookings db' = [confirmed_booking 1 ''not-a-date'' ''09:00'' 1])"
  by code_simp

text \<open>
  C3, amended. The stored time of a scheduled booking is always one of the eight slot
  labels, so a malformed preferred time is never stored (and is not reported). When the
  preferred date is one that \<^verbatim>\<open>strptime\<close> rejects and all eight slots filed under that
  text are full at the selected centre, the route function raises
  \<^verbatim>\<open>HTTPException(status_code=400)\<close>, built from the \<^verbatim>\<open>ValueError\<close>, and leaves the store
  unchanged; a request with such a date that succeeds found a free slot under that text,
  and its booking carries the date text as given. A request for which the route function
  raises stores no booking. The statement is about what the route function returns or
  raises, not about the response the client receives.
\<close>

theorem schedule_appointment_malformed:
  "(\<forall>r db'. schedule_appointment db req = (Inr r, db') \<longrightarrow>
      (\<exists>b. bookings db' = bookings db @ [b] \<and> b_time b \<in> set AVAILABLE_SLOTS
          \<and> (strptime (preferred_date req) = Inl ValueError \<longrightarrow>
                b_date b = preferred_date req
                \<and> \<not> day_full db (preferred_date req) (find_best_service_center db))))
   \<and> (strptime (preferred_date req) = Inl ValueError
        \<and> day_full db (preferred_date req) (find_best_service_center db) \<longrightarrow>
        schedule_appointment db req = (Inl (HTTPException 400 ValueError), db))
   \<and> (\<forall>e db'. schedule_appointment db req = (Inl e, db') \<longrightarrow> bookings db' = bookings db)"
proof (cases rule: schedule_appointment_cases [of db req])
  case (slot_error e)
  then show ?thesis
    using find_preferred_slot_malformed(1)
      [where d = "preferred_date req" and e = ValueError and db = db
         and c = "find_best_service_center db" and t = "preferred_time req"]
    by auto
next
  case (user_error d t e)
  then show ?thesis
    using find_preferred_slot_malformed(1)
      [where d = "preferred_date req" and e = ValueError and db = db
         and c = "find_best_service_center db" and t = "preferred_time req"]
    by auto
next
  case (vehicle_error d t u db1 e)
  note u = create_or_get_user_tables [OF vehicle_error(2)]
  from vehicle_error u(1) show ?thesis
    using find_preferred_slot_malformed(1)
      [where d = "preferred_date req" and e = ValueError and db = db
         and c = "find_best_service_center db" and t = "preferred_time req"]
    by auto
next
  case (booked d t u db1 v db2 r b)
  note u = create_or_get_user_tables [OF booked(2)]
  note v = create_or_get_vehicle_tables [OF booked(3)]
  have bk: "bookings (db2\<lparr>bookings := bookings db2 @ [b]\<rparr>) = bookings db @ [b]"
    using u(1) v(1) by simp
  have tm: "b_time b \<in> set AVAILABLE_SLOTS"
    using find_preferred_slot_label [OF booked(1)] booked(4) by simp
  have dt: "b_date b = preferred_date req
      \<and> \<not> day_full db (preferred_date req) (find_best_service_center db)"
    if "strptime (preferred_date req) = Inl ValueError"
    using find_preferred_slot_malformed(1) [OF that, where db = db
        and c = "find_best_service_center db" and t = "preferred_time req"]
      find_preferred_slot_malformed(3) [OF that booked(1)] booked(1,4)
    by auto
  from bk tm dt booked(5) show ?thesis
    by auto
qed

theorem schedule_appointment_malformed_witness:
  "strptime (preferred_date malformed_request) = Inl ValueError
    \<and> day_full malformed_full_db (preferred_date malformed_request)
          (find_best_service_center malformed_full_db)
    \<and> schedule_appointment malformed_full_db malformed_request
          = (Inl (HTTPException 400 ValueError), malformed_full_db)
    \<and> (\<exists>r db'. schedule_appointment seeded_db malformed_request = (Inr r, db')
          \<and> (\<exists>b. bookings db' = bookings seeded_db @ [b] \<and> b_time b \<in> set AVAILABLE_SLOTS
                 \<and> b_date b = preferred_date malformed_request))"
proof -
  have p: "strptime (preferred_date malformed_request) = Inl ValueError"
    by (simp add: malformed_request_def is_digit_def)
  have c: "find_best_service_center malformed_full_db = 1"
    by (simp add: find_best_service_center_def malformed_full_db_def load_db_def empty_db_def)
  have "day_full malformed_full_db ''not-a-date'' 1"
    unfolding malformed_full_db_def by (rule load_db_day_full) simp
  then have f: "day_full malformed_full_db (preferred_date malformed_request)
          (find_best_service_center malformed_full_db)"
    by (simp add: c malformed_request_def)
  have "case schedule_appointment seeded_db malformed_request of
          (Inr r, db') \<Rightarrow> True | (Inl e, db') \<Rightarrow> False"
    by code_simp
  then obtain r db' where ok: "schedule_appointment seeded_db malformed_request = (Inr r, db')"
    by (auto split: prod.splits sum.splits)
  from p f ok schedule_appointment_malformed [of malformed_full_db malformed_request]
    schedule_appointment_malformed [of seeded_db malformed_request]
  show ?thesis by auto
qed

subsection \<open>The exact-match tier (C4)\<close>

text \<open>
  C4. Exact-match tier: when the preferred time is one of the eight slot labels and the
  slot of that date, time and centre holds fewer than five non-cancelled bookings,
  \<^verbatim>\<open>find_preferred_slot\<close> returns the preferred date and time unchanged.
\<close>

theorem find_preferred_slot_exact_match:
  assumes "t \<in> set AVAILABLE_SLOTS"
    and "existing_bookings db d t c < 5"
  shows "find_preferred_slot db d t c = Inr (d, t)"
  using assms
  by (simp add: find_preferred_slot_def check_slot_availability_def SLOTS_PER_TIMEFRAME_def)

theorem find_preferred_slot_exact_match_witness:
  "''10:00'' \<in> set AVAILABLE_SLOTS
    \<and> existing_bookings (slot_with 4 ''2025-06-10'' ''10:00'' 1) ''2025-06-10'' ''10:00'' 1 < 5
    \<and> find_preferred_slot (slot_with 4 ''2025-06-10'' ''10:00'' 1) ''2025-06-10'' ''10:00'' 1
          = Inr (''2025-06-10'', ''10:00'')"
proof -
  have a: "''10:00'' \<in> set AVAILABLE_SLOTS"
    by (simp add: AVAILABLE_SLOTS_def)
  have b: "existing_bookings (slot_with 4 ''2025-06-10'' ''10:00'' 1) ''2025-06-10'' ''10:00'' 1 < 5"
    by code_simp
  from a b find_preferred_slot_exact_match [OF a b] show ?thesis by simp
qed

subsection \<open>The same-day tier (C5)\<close>

text \<open>
  C5. Same-day relaxation tier: when the exact slot is unavailable or the preferred time
  is not a slot label, and at least one of the eight slots of the preferred date is
  available, \<^verbatim>\<open>find_preferred_slot\<close> returns the preferred date with an available slot
  \<open>s\<close> of minimum non-cancelled count, the first such in the canonical order: every
  label before \<open>s\<close> holds strictly more bookings, every label after it at least as
  many. In particular a preferred pair that already holds five non-cancelled bookings is
  not returned.
\<close>

theorem find_preferred_slot_same_day:
  assumes "\<not> (t \<in> set AVAILABLE_SLOTS \<and> check_slot_availability db d t c)"
    and "\<exists>slot\<in>set AVAILABLE_SLOTS. check_slot_availability db d slot c"
  shows "\<exists>pre s post.
           find_preferred_slot db d t c = Inr (d, s)
         \<and> AVAILABLE_SLOTS = pre @ s # post
         \<and> check_slot_availability db d s c
         \<and> (\<forall>x\<in>set pre. existing_bookings db d s c < existing_bookings db d x c)
         \<and> (\<forall>x\<in>set post. existing_bookings db d s c \<le> existing_bookings db d x c)
         \<and> (5 \<le> existing_bookings db d t c \<longrightarrow> (d, s) \<noteq> (d, t))"
proof -
  let ?f = "\<lambda>x. dict_get (get_slot_occupancy db d c) x 0"
  have ne: "AVAILABLE_SLOTS \<noteq> []" by (simp add: AVAILABLE_SLOTS_def)
  from sort_key_hd_min [OF ne, of ?f]
  obtain pre s post where ps: "AVAILABLE_SLOTS = pre @ s # post"
    and hd: "hd (sort_key ?f AVAILABLE_SLOTS) = s"
    and lt: "\<forall>x\<in>set pre. ?f s < ?f x" and le: "\<forall>x\<in>set post. ?f s \<le> ?f x"
    by blast
  have mem: "set pre \<subseteq> set AVAILABLE_SLOTS" "s \<in> set AVAILABLE_SLOTS"
    "set post \<subseteq> set AVAILABLE_SLOTS"
    by (auto simp: ps)
  have lt': "\<forall>x\<in>set pre. existing_bookings db d s c < existing_bookings db d x c"
    using lt mem by (auto simp: dict_get_occupancy subset_iff)
  have le': "\<forall>x\<in>set post. existing_bookings db d s c \<le> existing_bookings db d x c"
    using le mem by (auto simp: dict_get_occupancy subset_iff)
  have min: "\<forall>x\<in>set AVAILABLE_SLOTS. existing_bookings db d s c \<le> existing_bookings db d x c"
    using lt' le' by (auto simp: ps)
  have av: "check_slot_availability db d s c"
    using assms(2) min by (fastforce simp: check_slot_availability_def)
  obtain ys where ys: "sort_key ?f AVAILABLE_SLOTS = s # ys"
    using hd ne by (cases "sort_key ?f AVAILABLE_SLOTS") (auto dest: arg_cong [where f = length])
  have "find_preferred_slot db d t c = Inr (d, s)"
    using assms(1) av by (auto simp: find_preferred_slot_def Let_def ys)
  moreover have "5 \<le> existing_bookings db d t c \<longrightarrow> (d, s) \<noteq> (d, t)"
    using av by (auto simp: check_slot_availability_def SLOTS_PER_TIMEFRAME_def)
  ultimately show ?thesis
    using ps av lt' le' by blast
qed

theorem find_preferred_slot_same_day_witness:
  "\<not> (''10:00'' \<in> set AVAILABLE_SLOTS
        \<and> check_slot_availability (slot_with 5 ''2025-06-10'' ''10:00'' 1) ''2025-06-10'' ''10:00'' 1)
    \<and> (\<exists>slot\<in>set AVAILABLE_SLOTS.
          check_slot_availability (slot_with 5 ''2025-06-10'' ''10:00'' 1) ''2025-06-10'' slot 1)
    \<and> find_preferred_slot (slot_with 5 ''2025-06-10'' ''10:00'' 1) ''2025-06-10'' ''10:00'' 1
         = Inr (''2025-06-10'', ''09:00'')"
proof -
  let ?db = "slot_with 5 ''2025-06-10'' ''10:00'' 1"
  have a: "\<not> (''10:00'' \<in> set AVAILABLE_SLOTS
              \<and> check_slot_availability ?db ''2025-06-10'' ''10:00'' 1)"
    by code_simp
  have c9: "check_slot_availability ?db ''2025-06-10'' ''09:00'' 1" by code_simp
  then have b: "\<exists>slot\<in>set AVAILABLE_SLOTS. check_slot_availability ?db ''2025-06-10'' slot 1"
    by (auto simp: AVAILABLE_SLOTS_def)
  from find_preferred_slot_same_day [OF a b]
  obtain pre s post where r: "find_preferred_slot ?db ''2025-06-10'' ''10:00'' 1 = Inr (''2025-06-10'', s)"
    and sp: "AVAILABLE_SLOTS = pre @ s # post"
    and lt: "\<forall>x\<in>set pre. existing_bookings ?db ''2025-06-10'' s 1
                             < existing_bookings ?db ''2025-06-10'' x 1"
    by blast
  have z: "existing_bookings ?db ''2025-06-10'' ''09:00'' 1 = 0" by code_simp
  have "pre = []"
  proof (cases pre)
    case (Cons p ps)
    with sp have "p = ''09:00''" by (simp add: AVAILABLE_SLOTS_def)
    with lt Cons have "existing_bookings ?db ''2025-06-10'' s 1 < 0" by (simp add: z)
    then show ?thesis by (simp add: existing_bookings_def)
  qed simp
  with sp have "s = ''09:00''" by (simp add: AVAILABLE_SLOTS_def)
  with r a b show ?thesis by simp
qed

subsection \<open>The exhausted fallback (C6)\<close>

text \<open>
  C6. Exhausted-fallback tier: when no slot among the eight labels is available on any of
  the days \<open>d\<close> through \<open>d + 6\<close>, \<^verbatim>\<open>find_preferred_slot\<close> returns the next day with
  the first slot label "09:00", although that slot is itself full. The next day is the
  date \<open>dt'\<close> whose day number in the library's count is one more than that of \<open>d\<close>
  (by \<open>toordinal_inj\<close> there is one such date only); it is returned as
  \<^verbatim>\<open>strftime\<close> writes it.
\<close>

theorem find_preferred_slot_exhausted:
  assumes "week_full db d c"
  shows "\<exists>dt dt'. strptime d = Inr dt \<and> valid_ymd dt'
           \<and> toordinal dt' = toordinal dt + 1
           \<and> shift_date d 1 = Inr (strftime dt')
           \<and> find_preferred_slot db d t c = Inr (strftime dt', ''09:00'')
           \<and> \<not> check_slot_availability db (strftime dt') ''09:00'' c"
proof -
  have full: "day_full db d c"
    and later: "\<forall>i\<in>set [1, 2, 3, 4, 5, 6].
                  case shift_date d i of Inl e \<Rightarrow> False | Inr sd \<Rightarrow> day_full db sd c"
    using assms by (simp_all add: week_full_def)
  from later have "case shift_date d 1 of Inl e \<Rightarrow> False | Inr sd \<Rightarrow> day_full db sd c"
    by simp
  then obtain next_date where nd: "shift_date d 1 = Inr next_date" "day_full db next_date c"
    by (cases "shift_date d 1") auto
  from shift_date_ordinal [OF nd(1)] obtain dt dt'
    where o: "strptime d = Inr dt" "valid_ymd dt'" "toordinal dt' = toordinal dt + 1"
      "next_date = strftime dt'"
    by auto
  have "\<forall>i\<in>set [2, 3, 4, 5, 6]. case shift_date d i of Inl e \<Rightarrow> False | Inr sd \<Rightarrow> day_full db sd c"
    using later by simp
  then have sd: "search_days db d c [2, 3, 4, 5, 6] = Inr None"
    by (rule search_days_full)
  have t1: "\<not> (t \<in> set AVAILABLE_SLOTS \<and> check_slot_availability db d t c)"
    using full by (auto simp: day_full_def)
  have "find_preferred_slot db d t c = Inr (next_date, AVAILABLE_SLOTS ! 0)"
    unfolding find_preferred_slot_def Let_def
    using t1 nd sd by (auto simp: day_full_find_sorted [OF full] day_full_find)
  moreover have "AVAILABLE_SLOTS ! 0 = ''09:00''" by (simp add: AVAILABLE_SLOTS_def)
  moreover have "\<not> check_slot_availability db next_date ''09:00'' c"
    using nd(2) by (simp add: day_full_def AVAILABLE_SLOTS_def)
  ultimately have "find_preferred_slot db d t c = Inr (strftime dt', ''09:00'')"
    and "\<not> check_slot_availability db (strftime dt') ''09:00'' c"
    and "shift_date d 1 = Inr (strftime dt')"
    using nd(1) o(4) by simp_all
  with o(1,2,3) show ?thesis by blast
qed

theorem find_preferred_slot_exhausted_witness:
  "week_full full_week_db ''2025-06-10'' 1
    \<and> strptime ''2025-06-10'' = Inr (2025, 6, 10)
    \<and> toordinal (2025, 6, 11) = toordinal (2025, 6, 10) + 1
    \<and> strftime (2025, 6, 11) = ''2025-06-11''
    \<and> find_preferred_slot full_week_db ''2025-06-10'' ''09:00'' 1 = Inr (''2025-06-11'', ''09:00'')
    \<and> \<not> check_slot_availability full_week_db ''2025-06-11'' ''09:00'' 1"
proof -
  have w: "week_full full_week_db ''2025-06-10'' 1"
    by (simp add: week_full_def shift_date_full_week full_week_db_day_full full_week_days_def del: One_nat_def)
  have p: "strptime ''2025-06-10'' = Inr (2025, 6, 10)"
    by (simp add: date_eval)
  have f: "strftime (2025, 6, 11) = ''2025-06-11''"
    by (simp add: date_eval)
  have t: "toordinal (2025, 6, 11) = toordinal (2025, 6, 10) + 1"
    by (simp add: toordinal_def days_before_month_def)
  from find_preferred_slot_exhausted [OF w, of "''09:00''"] obtain dt dt'
    where r: "shift_date ''2025-06-10'' 1 = Inr (strftime dt')"
      "find_preferred_slot full_week_db ''2025-06-10'' ''09:00'' 1 = Inr (strftime dt', ''09:00'')"
      "\<not> check_slot_availability full_week_db (strftime dt') ''09:00'' 1"
    by blast
  from r(1) have "strftime dt' = ''2025-06-11''"
    by (simp add: shift_date_full_week del: One_nat_def)
  with r(2,3) w p f t show ?thesis by simp
qed

subsection \<open>The day optimizer's percentage (C7)\<close>




subsection \<open>Cancellation (C8)\<close>

text \<open>
  C8. Cancellation frees the slot: when a (date, time, centre) triple holds exactly five
  non-cancelled bookings, so that \<^verbatim>\<open>check_slot_availability\<close> is false, and
  \<^verbatim>\<open>cancel_booking\<close> is applied to the id of one of those bookings, then
  \<^verbatim>\<open>check_slot_availability\<close> for the same triple is true afterwards.
\<close>

theorem cancel_booking_frees_slot:
  assumes "existing_bookings db d t c = 5"
    and "b \<in> set (bookings db)"
    and "b_id b = bid"
    and "slot_filter d t c b"
  shows "\<not> check_slot_availability db d t c
    \<and> check_slot_availability (snd (cancel_booking db bid)) d t c"
proof -
  let ?upd = "\<lambda>r. if b_id r = bid then r\<lparr>b_status := Cancelled\<rparr> else r"
  obtain b0 where f: "find (\<lambda>r. b_id r = bid) (bookings db) = Some b0"
    using assms(2,3) by (cases "find (\<lambda>r. b_id r = bid) (bookings db)") (auto simp: find_None_iff)
  have db': "bookings (snd (cancel_booking db bid)) = map ?upd (bookings db)"
    by (simp add: cancel_booking_def f)
  have "length (filter (slot_filter d t c) (map ?upd (bookings db)))
          < length (filter (slot_filter d t c) (bookings db))"
    using assms(2-4)
    by (intro length_filter_map_less [of b]) (auto simp: slot_filter_def split: if_splits)
  then have "existing_bookings (snd (cancel_booking db bid)) d t c < 5"
    using assms(1) by (simp add: existing_bookings_def db')
  then show ?thesis
    using assms(1) by (simp add: check_slot_availability_def SLOTS_PER_TIMEFRAME_def)
qed

theorem cancel_booking_frees_slot_witness:
  "existing_bookings (slot_with 5 ''2025-06-10'' ''10:00'' 1) ''2025-06-10'' ''10:00'' 1 = 5
    \<and> \<not> check_slot_availability (slot_with 5 ''2025-06-10'' ''10:00'' 1) ''2025-06-10'' ''10:00'' 1
    \<and> check_slot_availability
          (snd (cancel_booking (slot_with 5 ''2025-06-10'' ''10:00'' 1) 3)) ''2025-06-10'' ''10:00'' 1"
proof -
  let ?db = "slot_with 5 ''2025-06-10'' ''10:00'' 1"
  let ?b = "confirmed_booking 3 ''2025-06-10'' ''10:00'' 1"
  have a: "existing_bookings ?db ''2025-06-10'' ''10:00'' 1 = 5" by code_simp
  have b: "?b \<in> set (bookings ?db)" by code_simp
  have c: "b_id ?b = 3" by (simp add: confirmed_booking_def)
  have d: "slot_filter ''2025-06-10'' ''10:00'' 1 ?b"
    by (simp add: confirmed_booking_def slot_filter_def)
  from a cancel_booking_frees_slot [OF a b c d] show ?thesis by simp
qed

subsection \<open>Wait-time bands (C9)\<close>

text \<open>
  C9. Wait-time bands: with minutes = occupancy.get(slot, 0) * 30,
  \<^verbatim>\<open>predict_wait_time\<close> returns the no-wait message when minutes is 0, the
  "~N min wait" message when 0 < minutes \<le> 30, the "~N min wait (about 1 hour)" message
  when 30 < minutes \<le> 60, and "~Hh Mm wait" with H = minutes div 60 and M = minutes mod 60
  when minutes > 60. So a count of 0 gives no wait, a count of 1 gives "~30 min wait" and a
  count of 3 gives "~1h 30m wait".
\<close>

theorem predict_wait_time_bands:
  assumes "minutes = dict_get occupancy slot 0 * 30"
  shows "(minutes = 0 \<longrightarrow> predict_wait_time occupancy slot = ''No wait - You'll be first!'')
    \<and> (0 < minutes \<and> minutes \<le> 30 \<longrightarrow>
          predict_wait_time occupancy slot = ''~'' @ str_int minutes @ '' min wait'')
    \<and> (30 < minutes \<and> minutes \<le> 60 \<longrightarrow>
          predict_wait_time occupancy slot
            = ''~'' @ str_int minutes @ '' min wait (about 1 hour)'')
    \<and> (60 < minutes \<longrightarrow>
          predict_wait_time occupancy slot
            = ''~'' @ str_int (minutes div 60) @ ''h '' @ str_int (minutes mod 60) @ ''m wait'')
    \<and> (dict_get occupancy slot 0 = 0 \<longrightarrow>
          predict_wait_time occupancy slot = ''No wait - You'll be first!'')
    \<and> (dict_get occupancy slot 0 = 1 \<longrightarrow> predict_wait_time occupancy slot = ''~30 min wait'')
    \<and> (dict_get occupancy slot 0 = 3 \<longrightarrow> predict_wait_time occupancy slot = ''~1h 30m wait'')"
proof -
  have s30: "str_int 30 = ''30''" by code_simp
  have s1: "str_int 1 = ''1''" by code_simp
  show ?thesis
    using assms by (auto simp: predict_wait_time_def Let_def s30 s1)
qed

theorem predict_wait_time_bands_witness:
  "dict_get sample_occupancy ''09:00'' 0 * 30 = 0
    \<and> predict_wait_time sample_occupancy ''09:00'' = ''No wait - You'll be first!''
    \<and> dict_get sample_occupancy ''10:00'' 0 * 30 = 30
    \<and> predict_wait_time sample_occupancy ''10:00'' = ''~30 min wait''
    \<and> dict_get sample_occupancy ''11:00'' 0 * 30 = 60
    \<and> predict_wait_time sample_occupancy ''11:00'' = ''~60 min wait (about 1 hour)''
    \<and> dict_get sample_occupancy ''12:00'' 0 * 30 = 90
    \<and> predict_wait_time sample_occupancy ''12:00'' = ''~1h 30m wait''
    \<and> predict_wait_time sample_occupancy ''17:00'' = ''No wait - You'll be first!''"
proof -
  have g: "dict_get sample_occupancy ''09:00'' 0 = 0" "dict_get sample_occupancy ''10:00'' 0 = 1"
    "dict_get sample_occupancy ''11:00'' 0 = 2" "dict_get sample_occupancy ''12:00'' 0 = 3"
    "dict_get sample_occupancy ''17:00'' 0 = 0"
    by (simp_all add: dict_get_def sample_occupancy_def)
  have s: "str_int 60 = ''60''" "str_int 30 = ''30''" "str_int 1 = ''1''"
    by code_simp+
  show ?thesis
    using predict_wait_time_bands [of 0 sample_occupancy "''09:00''"]
      predict_wait_time_bands [of 30 sample_occupancy "''10:00''"]
      predict_wait_time_bands [of 60 sample_occupancy "''11:00''"]
      predict_wait_time_bands [of 90 sample_occupancy "''12:00''"]
      predict_wait_time_bands [of 0 sample_occupancy "''17:00''"]
    by (simp add: g s)
qed

subsection \<open>The default centre (C10)\<close>

text \<open>
  C10. When the store holds no service centre at all, \<^verbatim>\<open>find_best_service_center\<close>
  returns the constant id 1 instead of raising, so scheduling proceeds against a centre id
  for which no ServiceCenter row exists: a successful request stores its booking under
  centre 1 and reports the placeholder centre details.
\<close>

theorem find_best_service_center_default:
  assumes "service_centers db = []"
  shows "find_best_service_center db = 1
    \<and> find (\<lambda>c. c_id c = 1) (service_centers db) = None
    \<and> (\<forall>r db'. schedule_appointment db req = (Inr r, db') \<longrightarrow>
          service_centers db' = []
          \<and> (\<exists>b. bookings db' = bookings db @ [b] \<and> b_id b = booking_id r
                  \<and> b_service_center_id b = 1)
          \<and> bd_service_center (details r) = ''EY Auto Service Center'')"
proof -
  have c: "find_best_service_center db = 1"
    using assms by (simp add: find_best_service_center_def)
  have "service_centers db' = []
          \<and> (\<exists>b. bookings db' = bookings db @ [b] \<and> b_id b = booking_id r
                  \<and> b_service_center_id b = 1)
          \<and> bd_service_center (details r) = ''EY Auto Service Center''"
    if ok: "schedule_appointment db req = (Inr r, db')" for r db'
  proof (cases rule: schedule_appointment_cases [of db req])
    case (booked d t u db1 v db2 r' b)
    from booked(2) have u: "bookings db1 = bookings db" "service_centers db1 = service_centers db"
      by (simp_all add: create_or_get_user_tables)
    from booked(3) have v: "bookings db2 = bookings db1" "service_centers db2 = service_centers db1"
      by (simp_all add: create_or_get_vehicle_tables)
    from booked(5) ok have r: "r' = r" "db' = db2\<lparr>bookings := bookings db2 @ [b]\<rparr>" by simp_all
    have "details r = get_booking_details d t 1 db'"
      using booked(8) r c by simp
    then have "bd_service_center (details r) = ''EY Auto Service Center''"
      using assms u v r by (simp add: get_booking_details_def)
    then show ?thesis
      using assms u v r booked(4,6) c by simp
  qed (use ok in simp_all)
  then show ?thesis
    using c assms by simp
qed

theorem find_best_service_center_default_witness:
  "service_centers empty_db = []
    \<and> find_best_service_center empty_db = 1
    \<and> (case schedule_appointment empty_db sample_request of
          (Inl e, db') \<Rightarrow> False
        | (Inr r, db') \<Rightarrow>
            assigned_slot r = (''2025-06-10'', ''10:00'')
            \<and> bookings db' = [confirmed_booking 1 ''2025-06-10'' ''10:00'' 1]
            \<and> service_centers db' = []
            \<and> bd_service_center (details r) = ''EY Auto Service Center'')"
proof -
  have e: "service_centers empty_db = []" by (simp add: empty_db_def)
  have s: "case schedule_appointment empty_db sample_request of
          (Inl e, db') \<Rightarrow> False
        | (Inr r, db') \<Rightarrow>
            assigned_slot r = (''2025-06-10'', ''10:00'')
            \<and> bookings db' = [confirmed_booking 1 ''2025-06-10'' ''10:00'' 1]"
    by code_simp
  from e s find_best_service_center_default [OF e, of sample_request] show ?thesis
    by (auto split: prod.splits sum.splits)
qed

end
